theory Spec2Isabelle
  imports Main "HOL-Library.Word"
begin

unbundle bit_operations_syntax

section \<open>JavaScript values\<close>

text \<open>
  The chat view receives its messages as \<^verbatim>\<open>unknown\<close> and inspects them at run time with
  \<^verbatim>\<open>typeof\<close>, \<^verbatim>\<open>Array.isArray\<close> and property reads. The values are modelled by one
  datatype. Numbers are the integers that a JavaScript number holds exactly, those of
  magnitude below \<open>2 ^ 53\<close> (timestamps, indices, counts); a number with a fraction, NaN
  and the integers beyond that range are outside the model. A string is its sequence of
  UTF-16 code units, of which the model holds those below 256; an object is the list of its
  own properties in enumeration order. \<open>JBigInt\<close> is the plain value on which
  \<^verbatim>\<open>JSON.stringify\<close> throws; it stands for every value that cannot be serialised.
\<close>

datatype jsval =
    JUndefined
  | JNull
  | JBool bool
  | JNum int
  | JBigInt int
  | JStr string
  | JArr "jsval list"
  | JObj "(string \<times> jsval) list"

datatype error = TypeError

text \<open>Reading a property of \<^verbatim>\<open>null\<close> or \<^verbatim>\<open>undefined\<close> throws a TypeError.\<close>

definition nullish :: "jsval \<Rightarrow> bool" where
  "nullish v = (v = JUndefined \<or> v = JNull)"

text \<open>
  \<open>get v k\<close> is the property read \<^verbatim>\<open>v.k\<close> on a value that is neither null nor undefined,
  for the property names the chat view reads: an object yields its own property, every other
  value has none of them.
\<close>

fun get :: "jsval \<Rightarrow> string \<Rightarrow> jsval" where
  "get (JObj ps) k = (case map_of ps k of Some v \<Rightarrow> v | None \<Rightarrow> JUndefined)"
| "get v k = JUndefined"

text \<open>\<^verbatim>\<open>Boolean(v)\<close>\<close>

fun truthy :: "jsval \<Rightarrow> bool" where
  "truthy JUndefined = False"
| "truthy JNull = False"
| "truthy (JBool b) = b"
| "truthy (JNum n) = (n \<noteq> 0)"
| "truthy (JBigInt n) = (n \<noteq> 0)"
| "truthy (JStr s) = (s \<noteq> [])"
| "truthy (JArr xs) = True"
| "truthy (JObj ps) = True"

section \<open>Strings and numbers\<close>

text \<open>\<^verbatim>\<open>Array.prototype.join\<close> on strings\<close>

fun join :: "string \<Rightarrow> string list \<Rightarrow> string" where
  "join sep [] = []"
| "join sep [x] = x"
| "join sep (x # y # ys) = x @ sep @ join sep (y # ys)"

text \<open>The white space of \<^verbatim>\<open>String.prototype.trim\<close> and of \<^verbatim>\<open>\s\<close>, below 256.\<close>

definition is_space :: "char \<Rightarrow> bool" where
  "is_space c = (c \<in> set [CHR 0x09, CHR 0x0A, CHR 0x0B, CHR 0x0C, CHR 0x0D, CHR 0x20, CHR 0xA0])"

definition trim :: "string \<Rightarrow> string" where
  "trim s = rev (dropWhile is_space (rev (dropWhile is_space s)))"

text \<open>
  \<^verbatim>\<open>String.prototype.toLowerCase\<close> on one code unit below 256: the letters A to Z and the
  Latin-1 capitals 0xC0 to 0xDE (but not the multiplication sign 0xD7) gain bit 5.
\<close>

fun lower_char :: "char \<Rightarrow> char" where
  "lower_char (Char b0 b1 b2 b3 b4 b5 b6 b7) =
     (let n = (of_char (Char b0 b1 b2 b3 b4 b5 b6 b7) :: nat)
      in if (65 \<le> n \<and> n \<le> 90) \<or> (192 \<le> n \<and> n \<le> 222 \<and> n \<noteq> 215)
         then Char b0 b1 b2 b3 b4 True b6 b7
         else Char b0 b1 b2 b3 b4 b5 b6 b7)"

definition toLowerCase :: "string \<Rightarrow> string" where
  "toLowerCase s = map lower_char s"

text \<open>\<^verbatim>\<open>Number.prototype.toString(radix)\<close> on a natural number\<close>

definition digit_char :: "nat \<Rightarrow> char" where
  "digit_char d = ''0123456789abcdefghijklmnopqrstuvwxyz'' ! d"

function to_radix :: "nat \<Rightarrow> nat \<Rightarrow> string" where
  "to_radix b n =
     (if b < 2 \<or> n < b then [digit_char n]
      else to_radix b (n div b) @ [digit_char (n mod b)])"
  by pat_completeness auto
termination
  by (relation "measure snd") auto

declare to_radix.simps [simp del]

text \<open>
  \<^verbatim>\<open>String(n)\<close> on an integer of magnitude below \<open>2 ^ 53\<close>: the decimal numeral.
  Beyond that range JavaScript rounds the number to the nearest double and, from
  \<open>10 ^ 21\<close> on, prints it in exponent notation; the properties that depend on the
  numeral of a number of a message take that number to be in the range.
\<close>

definition show_int :: "int \<Rightarrow> string" where
  "show_int i = (if i < 0 then CHR ''-'' # to_radix 10 (nat (- i)) else to_radix 10 (nat i))"

text \<open>\<^verbatim>\<open>String(v)\<close>: an array joins its elements with commas, null and undefined as empty.\<close>

fun js_String :: "jsval \<Rightarrow> string" where
  "js_String JUndefined = ''undefined''"
| "js_String JNull = ''null''"
| "js_String (JBool b) = (if b then ''true'' else ''false'')"
| "js_String (JNum n) = show_int n"
| "js_String (JBigInt n) = show_int n"
| "js_String (JStr s) = s"
| "js_String (JArr xs) = join '','' (map (\<lambda>x. if nullish x then [] else js_String x) xs)"
| "js_String (JObj ps) = ''[object Object]''"

section \<open>JSON.stringify\<close>

text \<open>
  \<^verbatim>\<open>JSON.stringify(value, null, gap)\<close> after the ECMAScript algorithm: \<open>ind\<close> is the
  current indentation and \<open>gap\<close> the indentation unit (empty for the compact form). The result
  is \<open>Inr None\<close> where JavaScript returns \<^verbatim>\<open>undefined\<close>, and \<open>Inl TypeError\<close>
  where it throws.
\<close>

definition hex_digit :: "nat \<Rightarrow> char" where
  "hex_digit d = digit_char (d mod 16)"

definition quote_char :: "char \<Rightarrow> string" where
  "quote_char c =
     (if c = CHR 0x22 then [CHR 0x5C, CHR 0x22]
      else if c = CHR 0x5C then [CHR 0x5C, CHR 0x5C]
      else if c = CHR 0x08 then [CHR 0x5C, CHR ''b'']
      else if c = CHR 0x0C then [CHR 0x5C, CHR ''f'']
      else if c = CHR 0x0A then [CHR 0x5C, CHR ''n'']
      else if c = CHR 0x0D then [CHR 0x5C, CHR ''r'']
      else if c = CHR 0x09 then [CHR 0x5C, CHR ''t'']
      else if (of_char c :: nat) < 32
        then [CHR 0x5C, CHR ''u'', CHR ''0'', CHR ''0'',
              hex_digit ((of_char c :: nat) div 16), hex_digit (of_char c :: nat)]
      else [c])"

definition quote :: "string \<Rightarrow> string" where
  "quote s = CHR 0x22 # concat (map quote_char s) @ [CHR 0x22]"

definition wrap_json :: "string \<Rightarrow> string \<Rightarrow> char \<Rightarrow> char \<Rightarrow> string list \<Rightarrow> string" where
  "wrap_json gap ind l r partial =
     (if partial = [] then [l, r]
      else if gap = [] then l # join '','' partial @ [r]
      else l # CHR 0x0A # (ind @ gap) @ join (CHR '','' # CHR 0x0A # (ind @ gap)) partial
             @ CHR 0x0A # ind @ [r])"

fun serialize :: "string \<Rightarrow> string \<Rightarrow> jsval \<Rightarrow> error + string option"
and serialize_elems :: "string \<Rightarrow> string \<Rightarrow> jsval list \<Rightarrow> error + string list"
and serialize_props :: "string \<Rightarrow> string \<Rightarrow> (string \<times> jsval) list \<Rightarrow> error + string list"
where
  "serialize gap ind JUndefined = Inr None"
| "serialize gap ind JNull = Inr (Some ''null'')"
| "serialize gap ind (JBool b) = Inr (Some (if b then ''true'' else ''false''))"
| "serialize gap ind (JNum n) = Inr (Some (show_int n))"
| "serialize gap ind (JBigInt n) = Inl TypeError"
| "serialize gap ind (JStr s) = Inr (Some (quote s))"
| "serialize gap ind (JArr xs) =
     (case serialize_elems gap (ind @ gap) xs of
        Inl e \<Rightarrow> Inl e
      | Inr partial \<Rightarrow> Inr (Some (wrap_json gap ind CHR ''['' CHR '']'' partial)))"
| "serialize gap ind (JObj ps) =
     (case serialize_props gap (ind @ gap) ps of
        Inl e \<Rightarrow> Inl e
      | Inr partial \<Rightarrow> Inr (Some (wrap_json gap ind CHR ''{'' CHR ''}'' partial)))"
| "serialize_elems gap ind [] = Inr []"
| "serialize_elems gap ind (x # xs) =
     (case serialize gap ind x of
        Inl e \<Rightarrow> Inl e
      | Inr r \<Rightarrow>
          (case serialize_elems gap ind xs of
             Inl e \<Rightarrow> Inl e
           | Inr rs \<Rightarrow> Inr ((case r of None \<Rightarrow> ''null'' | Some s \<Rightarrow> s) # rs)))"
| "serialize_props gap ind [] = Inr []"
| "serialize_props gap ind (kv # ps) =
     (case serialize gap ind (snd kv) of
        Inl e \<Rightarrow> Inl e
      | Inr r \<Rightarrow>
          (case serialize_props gap ind ps of
             Inl e \<Rightarrow> Inl e
           | Inr rs \<Rightarrow>
               Inr (case r of
                      None \<Rightarrow> rs
                    | Some s \<Rightarrow>
                        (quote (fst kv) @ '':'' @ (if gap = [] then [] else '' '') @ s) # rs)))"

definition JSON_stringify :: "string \<Rightarrow> jsval \<Rightarrow> error + string option" where
  "JSON_stringify gap v = serialize gap [] v"

text \<open>
  \<^verbatim>\<open>safeJson\<close> (chat.ts): the serialisation, or nothing when \<^verbatim>\<open>JSON.stringify\<close>
  throws. Where \<^verbatim>\<open>JSON.stringify\<close> returns \<^verbatim>\<open>undefined\<close> so does \<^verbatim>\<open>safeJson\<close>;
  its only caller applies \<^verbatim>\<open>??\<close>, which treats null and undefined alike, so both are
  \<open>None\<close>.
\<close>

definition safeJson :: "jsval \<Rightarrow> string option" where
  "safeJson v = (case JSON_stringify [] v of Inl e \<Rightarrow> None | Inr r \<Rightarrow> r)"

section \<open>Content extraction (chat.ts)\<close>

text \<open>\<^verbatim>\<open>typeof v === "string" ? v : null\<close>\<close>

definition as_string :: "jsval \<Rightarrow> string option" where
  "as_string v = (case v of JStr s \<Rightarrow> Some s | _ \<Rightarrow> None)"

definition newline :: string where
  "newline = [CHR 0x0A]"

text \<open>
  The callback of \<^verbatim>\<open>content.map\<close> in \<^verbatim>\<open>extractText\<close> and \<^verbatim>\<open>extractRawText\<close>:
  the text of a part of type \<^verbatim>\<open>"text"\<close> whose text is a string.
\<close>

definition part_text :: "jsval \<Rightarrow> string option" where
  "part_text item =
     (if get item ''type'' = JStr ''text'' then as_string (get item ''text'') else None)"

text \<open>
  \<^verbatim>\<open>content.map(...).filter(...)\<close>: the callback reads \<^verbatim>\<open>item.type\<close>, which throws on
  an element that is null or undefined.
\<close>

fun text_parts :: "jsval list \<Rightarrow> error + string list" where
  "text_parts [] = Inr []"
| "text_parts (p # ps) =
     (if nullish p then Inl TypeError
      else case text_parts ps of
             Inl e \<Rightarrow> Inl e
           | Inr ts \<Rightarrow> Inr (case part_text p of Some t \<Rightarrow> t # ts | None \<Rightarrow> ts))"

text \<open>
  \<^verbatim>\<open>stripThinkingTags\<close> is imported from \<^verbatim>\<open>../format\<close>, which is not among the sources;
  it is a parameter of every function that calls it.
\<close>

definition extractText :: "(string \<Rightarrow> string) \<Rightarrow> jsval \<Rightarrow> error + string option" where
  "extractText stripThinkingTags message =
     (if nullish message then Inl TypeError
      else
        let role = (case get message ''role'' of JStr r \<Rightarrow> r | _ \<Rightarrow> []);
            content = get message ''content'';
            strip = (\<lambda>s. if role = ''assistant'' then stripThinkingTags s else s)
        in case content of
             JStr s \<Rightarrow> Inr (Some (strip s))
           | _ \<Rightarrow>
              (case (case content of JArr ps \<Rightarrow> text_parts ps | _ \<Rightarrow> Inr []) of
                 Inl e \<Rightarrow> Inl e
               | Inr parts \<Rightarrow>
                   if parts \<noteq> [] then Inr (Some (strip (join newline parts)))
                   else (case get message ''text'' of
                           JStr t \<Rightarrow> Inr (Some (strip t))
                         | _ \<Rightarrow> Inr None)))"

definition extractRawText :: "jsval \<Rightarrow> error + string option" where
  "extractRawText message =
     (if nullish message then Inl TypeError
      else
        let content = get message ''content''
        in case content of
             JStr s \<Rightarrow> Inr (Some s)
           | _ \<Rightarrow>
              (case (case content of JArr ps \<Rightarrow> text_parts ps | _ \<Rightarrow> Inr []) of
                 Inl e \<Rightarrow> Inl e
               | Inr parts \<Rightarrow>
                   if parts \<noteq> [] then Inr (Some (join newline parts))
                   else (case get message ''text'' of
                           JStr t \<Rightarrow> Inr (Some t)
                         | _ \<Rightarrow> Inr None)))"

subsection \<open>The legacy thinking tags\<close>

text \<open>
  The regular expression of \<^verbatim>\<open>extractThinking\<close>,
  \<^verbatim>\<open>/<\s*think(?:ing)?\s*>([\s\S]*?)<\s*\/\s*think(?:ing)?\s*>/gi\<close>,
  as a matcher on code units. Every greedy quantifier of the pattern is followed by a
  character it cannot itself match, so no backtracking is needed inside a tag; without the
  \<^verbatim>\<open>u\<close> flag the letters match exactly their two ASCII cases.
\<close>

fun match_ci :: "string \<Rightarrow> string \<Rightarrow> string option" where
  "match_ci [] s = Some s"
| "match_ci (p # ps) [] = None"
| "match_ci (p # ps) (c # cs) = (if lower_char c = p then match_ci ps cs else None)"

text \<open>\<^verbatim>\<open>think(?:ing)?\s*>\<close>\<close>

definition match_think :: "string \<Rightarrow> string option" where
  "match_think s =
     (case match_ci ''think'' s of
        None \<Rightarrow> None
      | Some r \<Rightarrow>
          (case dropWhile is_space (case match_ci ''ing'' r of Some r' \<Rightarrow> r' | None \<Rightarrow> r) of
             c # rest \<Rightarrow> if c = CHR ''>'' then Some rest else None
           | [] \<Rightarrow> None))"

text \<open>\<^verbatim>\<open><\s*think(?:ing)?\s*>\<close> at the start of \<open>s\<close>: what follows the tag.\<close>

definition tag_open :: "string \<Rightarrow> string option" where
  "tag_open s =
     (case s of
        c # r \<Rightarrow> if c = CHR ''<'' then match_think (dropWhile is_space r) else None
      | [] \<Rightarrow> None)"

text \<open>\<^verbatim>\<open><\s*\/\s*think(?:ing)?\s*>\<close> at the start of \<open>s\<close>\<close>

definition tag_close :: "string \<Rightarrow> string option" where
  "tag_close s =
     (case s of
        c # r \<Rightarrow>
          if c = CHR ''<'' then
            (case dropWhile is_space r of
               d # r' \<Rightarrow> if d = CHR ''/'' then match_think (dropWhile is_space r') else None
             | [] \<Rightarrow> None)
          else None
      | [] \<Rightarrow> None)"

text \<open>
  The lazy group \<^verbatim>\<open>([\s\S]*?)\<close> and the closing tag: the shortest prefix after which a
  closing tag starts, and what follows that tag.
\<close>

fun find_close :: "string \<Rightarrow> (string \<times> string) option" where
  "find_close [] = None"
| "find_close (c # cs) =
     (case tag_close (c # cs) of
        Some rest \<Rightarrow> Some ([], rest)
      | None \<Rightarrow>
          (case find_close cs of
             None \<Rightarrow> None
           | Some (inner, rest) \<Rightarrow> Some (c # inner, rest)))"

text \<open>
  \<^verbatim>\<open>matchAll\<close>: the first group of every match, from left to right; the search resumes
  after a match, or one code unit further on where no match starts. \<open>n\<close> bounds the
  number of steps; every step consumes a code unit, so the length of the text is enough.
\<close>

fun scan_think :: "nat \<Rightarrow> string \<Rightarrow> string list" where
  "scan_think 0 s = []"
| "scan_think (Suc n) [] = []"
| "scan_think (Suc n) (c # cs) =
     (case tag_open (c # cs) of
        None \<Rightarrow> scan_think n cs
      | Some body \<Rightarrow>
          (case find_close body of
             None \<Rightarrow> scan_think n cs
           | Some (inner, rest) \<Rightarrow> inner # scan_think n rest))"

definition think_matches :: "string \<Rightarrow> string list" where
  "think_matches s = scan_think (length s) s"

text \<open>The loop of \<^verbatim>\<open>extractThinking\<close> over the content parts.\<close>

fun thinking_parts :: "jsval list \<Rightarrow> error + string list" where
  "thinking_parts [] = Inr []"
| "thinking_parts (p # ps) =
     (if nullish p then Inl TypeError
      else case thinking_parts ps of
             Inl e \<Rightarrow> Inl e
           | Inr ts \<Rightarrow>
               Inr (if get p ''type'' = JStr ''thinking'' then
                      (case get p ''thinking'' of
                         JStr t \<Rightarrow> if trim t \<noteq> [] then trim t # ts else ts
                       | _ \<Rightarrow> ts)
                    else ts))"

definition legacy_thinking :: "string \<Rightarrow> string option" where
  "legacy_thinking rawText =
     (let extracted = filter (\<lambda>s. s \<noteq> []) (map trim (think_matches rawText))
      in if extracted \<noteq> [] then Some (join newline extracted) else None)"

definition extractThinking :: "jsval \<Rightarrow> error + string option" where
  "extractThinking message =
     (if nullish message then Inl TypeError
      else
        case (case get message ''content'' of JArr ps \<Rightarrow> thinking_parts ps | _ \<Rightarrow> Inr []) of
          Inl e \<Rightarrow> Inl e
        | Inr parts \<Rightarrow>
            if parts \<noteq> [] then Inr (Some (join newline parts))
            else (case extractRawText message of
                    Inl e \<Rightarrow> Inl e
                  | Inr None \<Rightarrow> Inr None
                  | Inr (Some rawText) \<Rightarrow>
                      if rawText = [] then Inr None else Inr (legacy_thinking rawText)))"

section \<open>Keys (chat.ts)\<close>

text \<open>
  \<^verbatim>\<open>fnv1a\<close>: \<^verbatim>\<open>^=\<close> and \<^verbatim>\<open>Math.imul\<close> work on 32-bit integers, \<^verbatim>\<open>>>> 0\<close> reads
  the result as unsigned.
\<close>

definition fnv1a :: "string \<Rightarrow> string" where
  "fnv1a input =
     to_radix 36 (unat (foldl (\<lambda>hash c. (hash XOR of_char c) * 0x01000193)
                              (0x811c9dc5 :: 32 word) input))"

definition messageKey :: "(string \<Rightarrow> string) \<Rightarrow> jsval \<Rightarrow> nat \<Rightarrow> error + string" where
  "messageKey stripThinkingTags message index =
     (if nullish message then Inl TypeError
      else
        let toolCallId = (case get message ''toolCallId'' of JStr s \<Rightarrow> s | _ \<Rightarrow> [])
        in if toolCallId \<noteq> [] then Inr (''tool:'' @ toolCallId)
        else
          let id = (case get message ''id'' of JStr s \<Rightarrow> s | _ \<Rightarrow> [])
          in if id \<noteq> [] then Inr (''msg:'' @ id)
          else
            let messageId = (case get message ''messageId'' of JStr s \<Rightarrow> s | _ \<Rightarrow> [])
            in if messageId \<noteq> [] then Inr (''msg:'' @ messageId)
            else
              let timestamp = (case get message ''timestamp'' of JNum n \<Rightarrow> Some n | _ \<Rightarrow> None);
                  role = (case get message ''role'' of JStr r \<Rightarrow> r | _ \<Rightarrow> ''unknown'')
              in case extractText stripThinkingTags message of
                   Inl e \<Rightarrow> Inl e
                 | Inr extracted \<Rightarrow>
                     let fingerprint =
                           (case extracted of
                              Some t \<Rightarrow> Some t
                            | None \<Rightarrow> as_string (get message ''content''));
                         seed =
                           (case fingerprint of
                              Some s \<Rightarrow> s
                            | None \<Rightarrow>
                                (case safeJson message of
                                   Some j \<Rightarrow> j
                                 | None \<Rightarrow> show_int (int index)));
                         hash = fnv1a seed
                     in Inr (if timestamp \<noteq> None \<and> timestamp \<noteq> Some 0
                             then ''msg:'' @ role @ '':'' @ show_int (the timestamp) @ '':'' @ hash
                             else ''msg:'' @ role @ '':'' @ hash))"

section \<open>Message normalisation (message-normalizer.ts)\<close>

record MessageContentItem =
  item_type :: jsval
  item_text :: jsval
  item_name :: jsval
  item_args :: jsval

record NormalizedMessage =
  nm_role :: string
  nm_content :: "MessageContentItem list"
  nm_timestamp :: int
  nm_id :: "string option"

text \<open>\<^verbatim>\<open>{ type: "text", text: s }\<close>\<close>

definition text_item :: "string \<Rightarrow> MessageContentItem" where
  "text_item s =
     \<lparr>item_type = JStr ''text'', item_text = JStr s, item_name = JUndefined,
      item_args = JUndefined\<rparr>"

text \<open>The callback of \<^verbatim>\<open>m.content.map\<close>; it reads \<^verbatim>\<open>item.type\<close> first.\<close>

fun normalize_items :: "jsval list \<Rightarrow> error + MessageContentItem list" where
  "normalize_items [] = Inr []"
| "normalize_items (item # items) =
     (if nullish item then Inl TypeError
      else case normalize_items items of
             Inl e \<Rightarrow> Inl e
           | Inr rest \<Rightarrow>
               Inr (\<lparr>item_type = (if truthy (get item ''type'') then get item ''type''
                                   else JStr ''text''),
                     item_text = get item ''text'',
                     item_name = get item ''name'',
                     item_args = (if truthy (get item ''args'') then get item ''args''
                                  else get item ''arguments'')\<rparr> # rest))"

text \<open>\<open>now\<close> is the value of \<^verbatim>\<open>Date.now()\<close>.\<close>

definition normalizeMessage :: "int \<Rightarrow> jsval \<Rightarrow> error + NormalizedMessage" where
  "normalizeMessage now message =
     (if nullish message then Inl TypeError
      else
        let role0 = (case get message ''role'' of JStr r \<Rightarrow> r | _ \<Rightarrow> ''unknown'');
            role = (if as_string (get message ''toolCallId'') \<noteq> None
                       \<or> as_string (get message ''tool_call_id'') \<noteq> None
                    then ''toolResult'' else role0);
            content =
              (case get message ''content'' of
                 JStr s \<Rightarrow> Inr [text_item s]
               | JArr items \<Rightarrow> normalize_items items
               | _ \<Rightarrow>
                  (case get message ''text'' of
                     JStr t \<Rightarrow> Inr [text_item t]
                   | _ \<Rightarrow> Inr []));
            timestamp = (case get message ''timestamp'' of JNum n \<Rightarrow> n | _ \<Rightarrow> now);
            id = as_string (get message ''id'')
        in case content of
             Inl e \<Rightarrow> Inl e
           | Inr c \<Rightarrow>
               Inr \<lparr>nm_role = role, nm_content = c, nm_timestamp = timestamp, nm_id = id\<rparr>)"

definition normalizeRoleForGrouping :: "string \<Rightarrow> string" where
  "normalizeRoleForGrouping role =
     (let lower = toLowerCase role
      in if lower = ''toolresult'' \<or> lower = ''tool_result'' \<or> lower = ''tool''
            \<or> lower = ''function''
         then ''assistant'' else role)"

definition isToolResultMessage :: "jsval \<Rightarrow> error + bool" where
  "isToolResultMessage message =
     (if nullish message then Inl TypeError
      else
        let role = (case get message ''role'' of JStr r \<Rightarrow> toLowerCase r | _ \<Rightarrow> [])
        in Inr (role = ''toolresult'' \<or> role = ''tool_result''))"

section \<open>Chat items and grouping (chat.ts)\<close>

datatype ChatItem =
    MessageItem string jsval
  | StreamItem string string int
  | ReadingIndicator string

record MessageGroup =
  group_key :: string
  group_role :: string
  group_messages :: "(jsval \<times> string) list"
  group_timestamp :: int
  isStreaming :: bool

text \<open>\<^verbatim>\<open>ChatItem | MessageGroup\<close>\<close>

datatype RenderItem = Item ChatItem | Group MessageGroup

fun item_key :: "ChatItem \<Rightarrow> string" where
  "item_key (MessageItem key message) = key"
| "item_key (StreamItem key text startedAt) = key"
| "item_key (ReadingIndicator key) = key"

fun render_key :: "RenderItem \<Rightarrow> string" where
  "render_key (Item i) = item_key i"
| "render_key (Group g) = group_key g"

definition push_group :: "RenderItem list \<Rightarrow> MessageGroup option \<Rightarrow> RenderItem list" where
  "push_group result currentGroup =
     (case currentGroup of Some g \<Rightarrow> result @ [Group g] | None \<Rightarrow> result)"

definition new_group :: "string \<Rightarrow> string \<Rightarrow> jsval \<Rightarrow> int \<Rightarrow> MessageGroup" where
  "new_group role key message timestamp =
     \<lparr>group_key = ''group:'' @ role @ '':'' @ key, group_role = role,
      group_messages = [(message, key)], group_timestamp = timestamp, isStreaming = False\<rparr>"

text \<open>
  The loop of \<^verbatim>\<open>groupMessages\<close> with its two variables, \<open>result\<close> and
  \<open>currentGroup\<close>. One value \<open>now\<close> stands for every \<^verbatim>\<open>Date.now()\<close> of a call.
\<close>

fun group_loop ::
  "int \<Rightarrow> ChatItem list \<Rightarrow> RenderItem list \<Rightarrow> MessageGroup option \<Rightarrow> error + RenderItem list"
where
  "group_loop now [] result currentGroup = Inr (push_group result currentGroup)"
| "group_loop now (MessageItem key message # items) result currentGroup =
     (case normalizeMessage now message of
        Inl e \<Rightarrow> Inl e
      | Inr normalized \<Rightarrow>
          let role = normalizeRoleForGrouping (nm_role normalized);
              timestamp = (if nm_timestamp normalized \<noteq> 0 then nm_timestamp normalized else now)
          in if currentGroup = None \<or> group_role (the currentGroup) \<noteq> role
             then group_loop now items (push_group result currentGroup)
                    (Some (new_group role key message timestamp))
             else group_loop now items result
                    (Some ((the currentGroup)
                       \<lparr>group_messages := group_messages (the currentGroup) @ [(message, key)]\<rparr>)))"
| "group_loop now (item # items) result currentGroup =
     group_loop now items (push_group result currentGroup @ [Item item]) None"

definition groupMessages :: "int \<Rightarrow> ChatItem list \<Rightarrow> error + RenderItem list" where
  "groupMessages now items = group_loop now items [] None"

section \<open>The item builder (chat.ts)\<close>

text \<open>The fields of \<^verbatim>\<open>ChatProps\<close> that \<^verbatim>\<open>buildChatItems\<close> reads.\<close>

record ChatProps =
  sessionKey :: string
  messages :: jsval
  toolMessages :: jsval
  stream :: "string option"
  streamStartedAt :: "int option"
  useNewChatLayout :: bool

definition CHAT_HISTORY_RENDER_LIMIT :: nat where
  "CHAT_HISTORY_RENDER_LIMIT = 200"

text \<open>
  The two loops that push one message item per array element: \<open>ms\<close> is the part of the
  array still to visit and \<open>i\<close> the index handed to \<^verbatim>\<open>messageKey\<close>.
\<close>

fun message_items :: "(string \<Rightarrow> string) \<Rightarrow> jsval list \<Rightarrow> nat \<Rightarrow> error + ChatItem list" where
  "message_items stripThinkingTags [] i = Inr []"
| "message_items stripThinkingTags (m # ms) i =
     (case messageKey stripThinkingTags m i of
        Inl e \<Rightarrow> Inl e
      | Inr key \<Rightarrow>
          (case message_items stripThinkingTags ms (Suc i) of
             Inl e \<Rightarrow> Inl e
           | Inr rest \<Rightarrow> Inr (MessageItem key m # rest)))"

definition history_notice :: "int \<Rightarrow> nat \<Rightarrow> ChatItem" where
  "history_notice now historyStart =
     MessageItem ''chat:history:notice''
       (JObj [(''role'', JStr ''system''),
              (''content'',
               JStr (''Showing last '' @ show_int (int CHAT_HISTORY_RENDER_LIMIT)
                     @ '' messages ('' @ show_int (int historyStart) @ '' hidden).'')),
              (''timestamp'', JNum now)])"

definition live_items :: "int \<Rightarrow> ChatProps \<Rightarrow> ChatItem list" where
  "live_items now props =
     (case stream props of
        None \<Rightarrow> []
      | Some text \<Rightarrow>
          let key = ''stream:'' @ sessionKey props @ '':''
                    @ (case streamStartedAt props of Some t \<Rightarrow> show_int t | None \<Rightarrow> ''live'')
          in if trim text \<noteq> []
             then [StreamItem key text
                     (case streamStartedAt props of Some t \<Rightarrow> t | None \<Rightarrow> now)]
             else [ReadingIndicator key])"

text \<open>The array \<^verbatim>\<open>items\<close> of \<^verbatim>\<open>buildChatItems\<close> before the layout is chosen.\<close>

definition chat_items :: "(string \<Rightarrow> string) \<Rightarrow> int \<Rightarrow> ChatProps \<Rightarrow> error + ChatItem list" where
  "chat_items stripThinkingTags now props =
     (let history = (case messages props of JArr xs \<Rightarrow> xs | _ \<Rightarrow> []);
          tools = (case toolMessages props of JArr xs \<Rightarrow> xs | _ \<Rightarrow> []);
          historyStart = length history - CHAT_HISTORY_RENDER_LIMIT
      in case message_items stripThinkingTags (drop historyStart history) historyStart of
           Inl e \<Rightarrow> Inl e
         | Inr hs \<Rightarrow>
             (case message_items stripThinkingTags tools (length history) of
                Inl e \<Rightarrow> Inl e
              | Inr ts \<Rightarrow>
                  Inr ((if historyStart > 0 then [history_notice now historyStart] else [])
                       @ hs @ ts @ live_items now props)))"

definition buildChatItems ::
  "(string \<Rightarrow> string) \<Rightarrow> int \<Rightarrow> ChatProps \<Rightarrow> error + RenderItem list"
where
  "buildChatItems stripThinkingTags now props =
     (case chat_items stripThinkingTags now props of
        Inl e \<Rightarrow> Inl e
      | Inr items \<Rightarrow>
          if useNewChatLayout props then groupMessages now items else Inr (map Item items))"

section \<open>Tool cards (chat.ts)\<close>

datatype CardKind = Call | Result

record ToolCard =
  card_kind :: CardKind
  card_name :: jsval
  card_args :: jsval
  card_text :: "string option"

definition normalizeContent :: "jsval \<Rightarrow> jsval list" where
  "normalizeContent content = (case content of JArr xs \<Rightarrow> filter truthy xs | _ \<Rightarrow> [])"

text \<open>
  \<^verbatim>\<open>coerceArgs\<close>; \<open>JSON_parse\<close> is the platform's parser, \<open>None\<close> where it throws.
\<close>

definition coerceArgs :: "(string \<Rightarrow> jsval option) \<Rightarrow> jsval \<Rightarrow> jsval" where
  "coerceArgs JSON_parse v =
     (case v of
        JStr s \<Rightarrow>
          let trimmed = trim s
          in if trimmed = [] then v
             else if hd trimmed \<noteq> CHR ''{'' \<and> hd trimmed \<noteq> CHR ''['' then v
             else (case JSON_parse trimmed of Some parsed \<Rightarrow> parsed | None \<Rightarrow> v)
      | _ \<Rightarrow> v)"

definition extractToolText :: "jsval \<Rightarrow> string option" where
  "extractToolText item =
     (case get item ''text'' of
        JStr s \<Rightarrow> Some s
      | _ \<Rightarrow> as_string (get item ''content''))"

text \<open>\<^verbatim>\<open>String(item.type ?? "").toLowerCase()\<close>\<close>

definition part_kind :: "jsval \<Rightarrow> string" where
  "part_kind item =
     toLowerCase (js_String (if nullish (get item ''type'') then JStr [] else get item ''type''))"

definition isToolCall :: "jsval \<Rightarrow> bool" where
  "isToolCall item =
     (part_kind item \<in> set [''toolcall'', ''tool_call'', ''tooluse'', ''tool_use'']
      \<or> (as_string (get item ''name'') \<noteq> None \<and> \<not> nullish (get item ''arguments'')))"

definition call_card :: "(string \<Rightarrow> jsval option) \<Rightarrow> jsval \<Rightarrow> ToolCard" where
  "call_card JSON_parse item =
     \<lparr>card_kind = Call,
      card_name = (if nullish (get item ''name'') then JStr ''tool'' else get item ''name''),
      card_args = coerceArgs JSON_parse
                    (if nullish (get item ''arguments'') then get item ''args''
                     else get item ''arguments''),
      card_text = None\<rparr>"

definition is_result_part :: "jsval \<Rightarrow> bool" where
  "is_result_part item = (part_kind item = ''toolresult'' \<or> part_kind item = ''tool_result'')"

definition result_card :: "jsval \<Rightarrow> ToolCard" where
  "result_card item =
     \<lparr>card_kind = Result,
      card_name = (case get item ''name'' of JStr n \<Rightarrow> JStr n | _ \<Rightarrow> JStr ''tool''),
      card_args = JUndefined,
      card_text = extractToolText item\<rparr>"

text \<open>The name of the synthesized result card.\<close>

definition tool_name :: "jsval \<Rightarrow> string" where
  "tool_name message =
     (let alt = (case get message ''tool_name'' of
                   JStr n \<Rightarrow> if n \<noteq> [] then n else ''tool''
                 | _ \<Rightarrow> ''tool'')
      in case get message ''toolName'' of
           JStr n \<Rightarrow> if n \<noteq> [] then n else alt
         | _ \<Rightarrow> alt)"

definition extractToolCards ::
  "(string \<Rightarrow> string) \<Rightarrow> (string \<Rightarrow> jsval option) \<Rightarrow> jsval \<Rightarrow> error + ToolCard list"
where
  "extractToolCards stripThinkingTags JSON_parse message =
     (if nullish message then Inl TypeError
      else
        let content = normalizeContent (get message ''content'');
            cards = map (call_card JSON_parse) (filter isToolCall content)
                    @ map result_card (filter is_result_part content)
        in case isToolResultMessage message of
             Inl e \<Rightarrow> Inl e
           | Inr toolResult \<Rightarrow>
               if toolResult \<and> \<not> list_ex (\<lambda>card. card_kind card = Result) cards
               then (case extractText stripThinkingTags message of
                       Inl e \<Rightarrow> Inl e
                     | Inr text \<Rightarrow>
                         Inr (cards @ [\<lparr>card_kind = Result, card_name = JStr (tool_name message),
                                         card_args = JUndefined, card_text = text\<rparr>]))
               else Inr cards)"

section \<open>The legacy message renderer (chat.ts)\<close>

text \<open>\<^verbatim>\<open>text.split(/\r?\n/)\<close>\<close>

fun split_lines :: "string \<Rightarrow> string list" where
  "split_lines [] = [[]]"
| "split_lines [c] = (if c = CHR 0x0A then [[], []] else [[c]])"
| "split_lines (c # d # cs) =
     (if c = CHR 0x0A then [] # split_lines (d # cs)
      else if c = CHR 0x0D \<and> d = CHR 0x0A then [] # split_lines cs
      else (case split_lines (d # cs) of
              l # ls \<Rightarrow> (c # l) # ls
            | [] \<Rightarrow> [[c]]))"

definition formatReasoningMarkdown :: "string \<Rightarrow> string" where
  "formatReasoningMarkdown text =
     (let trimmed = trim text
      in if trimmed = [] then []
         else
           let lines = map (\<lambda>line. ''_'' @ line @ ''_'')
                         (filter (\<lambda>line. line \<noteq> []) (map trim (split_lines trimmed)))
           in if lines \<noteq> [] then join newline (''_Reasoning:_'' # lines) else [])"

datatype Display = TextDisplay string | JsonDisplay string

text \<open>
  \<^verbatim>\<open>renderMessage\<close> up to the values it hands to the template: the markdown of the
  bubble and the tool cards. \<^verbatim>\<open>JSON.stringify(message, null, 2)\<close> is called outside any
  \<^verbatim>\<open>try\<close>.
\<close>

record RenderedMessage =
  rendered_markdown :: "string option"
  rendered_cards :: "ToolCard list"

definition json_fence :: string where
  "json_fence = [CHR 0x60, CHR 0x60, CHR 0x60]"

definition renderMessage ::
  "(string \<Rightarrow> string) \<Rightarrow> (string \<Rightarrow> jsval option) \<Rightarrow> bool \<Rightarrow> jsval \<Rightarrow> error + RenderedMessage"
where
  "renderMessage stripThinkingTags JSON_parse showReasoning message =
     (if nullish message then Inl TypeError
      else
        let role = (case get message ''role'' of JStr r \<Rightarrow> r | _ \<Rightarrow> ''unknown'')
        in case extractToolCards stripThinkingTags JSON_parse message of
             Inl e \<Rightarrow> Inl e
           | Inr toolCards \<Rightarrow>
        (case isToolResultMessage message of
             Inl e \<Rightarrow> Inl e
           | Inr toolResultRole \<Rightarrow>
        (case extractText stripThinkingTags message of
             Inl e \<Rightarrow> Inl e
           | Inr extractedText \<Rightarrow>
        (case (if showReasoning \<and> role = ''assistant'' then extractThinking message
               else Inr None) of
             Inl e \<Rightarrow> Inl e
           | Inr extractedThinking \<Rightarrow>
        (case (if toolCards \<noteq> [] then Inr None else JSON_stringify ''  '' message) of
             Inl e \<Rightarrow> Inl e
           | Inr fallback \<Rightarrow>
               let isToolResult = (toolResultRole
                                   \<or> as_string (get message ''toolCallId'') \<noteq> None
                                   \<or> as_string (get message ''tool_call_id'') \<noteq> None);
                   contentText = as_string (get message ''content'');
                   nonblank = (\<lambda>t. case t of Some s \<Rightarrow> trim s \<noteq> [] | None \<Rightarrow> False);
                   display =
                     (if \<not> isToolResult \<and> nonblank extractedText
                        then Some (TextDisplay (the extractedText))
                      else if \<not> isToolResult \<and> nonblank contentText
                        then Some (TextDisplay (the contentText))
                      else if \<not> isToolResult \<and> fallback \<noteq> None \<and> fallback \<noteq> Some []
                        then Some (JsonDisplay (the fallback))
                      else None);
                   markdownBase =
                     (case display of
                        Some (JsonDisplay v) \<Rightarrow>
                          Some (join newline [json_fence @ ''json'', v, json_fence])
                      | Some (TextDisplay v) \<Rightarrow> Some v
                      | None \<Rightarrow> None);
                   markdown =
                     (if extractedThinking \<noteq> None \<and> extractedThinking \<noteq> Some []
                      then Some (join (newline @ newline)
                                   (filter (\<lambda>s. s \<noteq> [])
                                      [formatReasoningMarkdown (the extractedThinking),
                                       (case markdownBase of Some b \<Rightarrow> b | None \<Rightarrow> [])]))
                      else markdownBase)
               in Inr \<lparr>rendered_markdown = markdown, rendered_cards = toolCards\<rparr>)))))"

section \<open>Vocabulary of the properties\<close>

text \<open>
  A message is readable when no property read of the chat view throws on it: it is neither
  null nor undefined and, when its content is an array, no element of that array is null or
  undefined. These are the raw messages of the specification's data model, records whose
  content is a string, a sequence of content parts, or absent.
\<close>

definition readable :: "jsval \<Rightarrow> bool" where
  "readable message =
     (\<not> nullish message
      \<and> (case get message ''content'' of
            JArr ps \<Rightarrow> list_all (\<lambda>p. \<not> nullish p) ps
          | _ \<Rightarrow> True))"

text \<open>
  The text of a message before any stripping: the string content, else the text parts joined
  by newlines, else the top-level text.
\<close>

definition raw_text :: "jsval \<Rightarrow> string option" where
  "raw_text message =
     (case get message ''content'' of
        JStr s \<Rightarrow> Some s
      | JArr ps \<Rightarrow>
          if List.map_filter part_text ps \<noteq> []
          then Some (join newline (List.map_filter part_text ps))
          else as_string (get message ''text'')
      | _ \<Rightarrow> as_string (get message ''text''))"

definition role_strip :: "(string \<Rightarrow> string) \<Rightarrow> jsval \<Rightarrow> string \<Rightarrow> string" where
  "role_strip stripThinkingTags message s =
     (if get message ''role'' = JStr ''assistant'' then stripThinkingTags s else s)"

text \<open>The explicit thinking parts of a message, trimmed, the empty ones dropped.\<close>

definition thinking_text :: "jsval \<Rightarrow> string option" where
  "thinking_text item =
     (if get item ''type'' = JStr ''thinking'' then as_string (get item ''thinking'') else None)"

definition explicit_thinking :: "jsval \<Rightarrow> string list" where
  "explicit_thinking message =
     (case get message ''content'' of
        JArr ps \<Rightarrow> filter (\<lambda>s. s \<noteq> []) (map trim (List.map_filter thinking_text ps))
      | _ \<Rightarrow> [])"


fun is_message :: "ChatItem \<Rightarrow> bool" where
  "is_message (MessageItem key message) = True"
| "is_message item = False"

fun item_readable :: "ChatItem \<Rightarrow> bool" where
  "item_readable (MessageItem key message) = readable message"
| "item_readable item = True"

text \<open>
  The canonical role and the timestamp that \<^verbatim>\<open>groupMessages\<close> derives from a message
  through \<^verbatim>\<open>normalizeMessage\<close>.
\<close>

definition grouping_role :: "jsval \<Rightarrow> string" where
  "grouping_role message =
     normalizeRoleForGrouping
       (if as_string (get message ''toolCallId'') \<noteq> None
           \<or> as_string (get message ''tool_call_id'') \<noteq> None
        then ''toolResult''
        else (case as_string (get message ''role'') of Some r \<Rightarrow> r | None \<Rightarrow> ''unknown''))"

definition grouping_timestamp :: "int \<Rightarrow> jsval \<Rightarrow> int" where
  "grouping_timestamp now message =
     (case get message ''timestamp'' of
        JNum n \<Rightarrow> if n \<noteq> 0 then n else now
      | _ \<Rightarrow> now)"






text \<open>\<^verbatim>\<open>Array.isArray(v) ? v : []\<close>\<close>

definition array_items :: "jsval \<Rightarrow> jsval list" where
  "array_items v = (case v of JArr xs \<Rightarrow> xs | _ \<Rightarrow> [])"

text \<open>
  The message items of an array whose first element has index \<open>i\<close>: every message in
  its order, under the key \<^verbatim>\<open>messageKey\<close> gives it at its index.
\<close>

definition the_key :: "(string \<Rightarrow> string) \<Rightarrow> jsval \<Rightarrow> nat \<Rightarrow> string" where
  "the_key stripThinkingTags message index =
     (case messageKey stripThinkingTags message index of Inr key \<Rightarrow> key | Inl e \<Rightarrow> [])"

definition keyed :: "(string \<Rightarrow> string) \<Rightarrow> nat \<Rightarrow> jsval list \<Rightarrow> ChatItem list" where
  "keyed stripThinkingTags i ms =
     map (\<lambda>(j, message). MessageItem (the_key stripThinkingTags message j) message)
       (List.enumerate i ms)"


definition stream_key :: "ChatProps \<Rightarrow> string" where
  "stream_key props =
     ''stream:'' @ sessionKey props @ '':''
     @ (case streamStartedAt props of Some t \<Rightarrow> show_int t | None \<Rightarrow> ''live'')"

text \<open>
  FNV-1a on 32 bits in plain arithmetic: from the seed \<open>0x811c9dc5\<close>, for every code unit
  the hash is combined with the unit by exclusive or and multiplied by \<open>0x01000193\<close>
  modulo \<open>2 ^ 32\<close>.
\<close>

definition fnv1a_hash :: "string \<Rightarrow> nat" where
  "fnv1a_hash input =
     foldl (\<lambda>h c. ((h XOR of_char c) * 16777619) mod 2 ^ 32) 2166136261 input"

text \<open>A property that holds a non-empty string.\<close>

definition nonempty_string :: "jsval \<Rightarrow> string option" where
  "nonempty_string v = (case v of JStr s \<Rightarrow> if s \<noteq> [] then Some s else None | _ \<Rightarrow> None)"

text \<open>
  The role and the fingerprint seed of a key: the extracted text, else the string content,
  else the JSON serialisation of the message, else the index.
\<close>

definition key_role :: "jsval \<Rightarrow> string" where
  "key_role message =
     (case as_string (get message ''role'') of Some r \<Rightarrow> r | None \<Rightarrow> ''unknown'')"

definition key_seed :: "(string \<Rightarrow> string) \<Rightarrow> jsval \<Rightarrow> nat \<Rightarrow> string" where
  "key_seed stripThinkingTags message index =
     (case extractText stripThinkingTags message of
        Inr (Some t) \<Rightarrow> t
      | _ \<Rightarrow>
         (case as_string (get message ''content'') of
            Some c \<Rightarrow> c
          | None \<Rightarrow>
              (case safeJson message of
                 Some j \<Rightarrow> j
               | None \<Rightarrow> show_int (int index))))"

text \<open>
  The key in the specification's words: a tool-call identifier (\<^verbatim>\<open>toolCallId\<close> or
  \<^verbatim>\<open>tool_call_id\<close>) that is present, else an \<^verbatim>\<open>id\<close>, else a \<^verbatim>\<open>messageId\<close>, else
  the fingerprint, with the timestamp whenever it is a number.
\<close>

definition claimed_key :: "(string \<Rightarrow> string) \<Rightarrow> jsval \<Rightarrow> nat \<Rightarrow> string" where
  "claimed_key stripThinkingTags message index =
     (case (case as_string (get message ''toolCallId'') of
              Some t \<Rightarrow> Some t
            | None \<Rightarrow> as_string (get message ''tool_call_id'')) of
        Some t \<Rightarrow> ''tool:'' @ t
      | None \<Rightarrow>
         (case as_string (get message ''id'') of
            Some d \<Rightarrow> ''msg:'' @ d
          | None \<Rightarrow>
             (case as_string (get message ''messageId'') of
                Some d \<Rightarrow> ''msg:'' @ d
              | None \<Rightarrow>
                 (case get message ''timestamp'' of
                    JNum ts \<Rightarrow>
                      ''msg:'' @ key_role message @ '':'' @ show_int ts @ '':''
                      @ to_radix 36 (fnv1a_hash (key_seed stripThinkingTags message index))
                  | _ \<Rightarrow>
                      ''msg:'' @ key_role message @ '':''
                      @ to_radix 36 (fnv1a_hash (key_seed stripThinkingTags message index))))))"

text \<open>
  The keys of the entries \<^verbatim>\<open>groupMessages\<close> returns, read off the items: \<open>c\<close> is the
  role of the open group. A message opens a group, keyed by its role and its own key, unless
  the open group has its role; every other item passes its key through.
\<close>

fun group_keys :: "ChatItem list \<Rightarrow> string option \<Rightarrow> string list" where
  "group_keys [] c = []"
| "group_keys (MessageItem key message # items) c =
     (if c = Some (grouping_role message) then group_keys items c
      else (''group:'' @ grouping_role message @ '':'' @ key)
           # group_keys items (Some (grouping_role message)))"
| "group_keys (item # items) c = item_key item # group_keys items None"

text \<open>
  A build reads no clock when no notice is due, a live text comes with its start time and,
  in the grouped layout, every message carries a timestamp that is a number other than 0.
\<close>

definition has_timestamp :: "jsval \<Rightarrow> bool" where
  "has_timestamp message = (case get message ''timestamp'' of JNum n \<Rightarrow> n \<noteq> 0 | _ \<Rightarrow> False)"

definition clock_free :: "ChatProps \<Rightarrow> bool" where
  "clock_free props =
     (length (array_items (messages props)) \<le> 200
      \<and> (stream props = None \<or> streamStartedAt props \<noteq> None)
      \<and> (\<not> useNewChatLayout props
         \<or> list_all has_timestamp
              (array_items (messages props) @ array_items (toolMessages props))))"

text \<open>Items whose grouping reads no clock, and items that look alike to the grouping.\<close>

fun stamped :: "ChatItem \<Rightarrow> bool" where
  "stamped (MessageItem key message) = has_timestamp message"
| "stamped item = True"

fun same_view :: "ChatItem \<Rightarrow> ChatItem \<Rightarrow> bool" where
  "same_view (MessageItem k m) (MessageItem k' m') =
     (k = k' \<and> readable m = readable m' \<and> grouping_role m = grouping_role m')"
| "same_view (StreamItem k t s) (StreamItem k' t' s') = (k = k')"
| "same_view (ReadingIndicator k) (ReadingIndicator k') = (k = k')"
| "same_view a b = False"

text \<open>The key an item gives the group it opens.\<close>

fun group_key_of :: "ChatItem \<Rightarrow> string" where
  "group_key_of (MessageItem key message) = ''group:'' @ grouping_role message @ '':'' @ key"
| "group_key_of item = item_key item"

text \<open>
  The number a numeral denotes: the value of a digit is its place among the digits
  \<^verbatim>\<open>0\<close> to \<^verbatim>\<open>9\<close> and \<^verbatim>\<open>a\<close> to \<^verbatim>\<open>z\<close>, and a numeral in base \<open>b\<close> is read
  from the left.
\<close>

definition digit_value :: "char \<Rightarrow> nat" where
  "digit_value c =
     length (takeWhile (\<lambda>x. x \<noteq> c) ''0123456789abcdefghijklmnopqrstuvwxyz'')"

definition read_radix :: "nat \<Rightarrow> string \<Rightarrow> nat" where
  "read_radix b s = foldl (\<lambda>a c. a * b + digit_value c) 0 s"

text \<open>
  A string without the colon that separates the fields of a key.
\<close>

definition colon_free :: "string \<Rightarrow> bool" where
  "colon_free s = (CHR '':'' \<notin> set s)"

text \<open>
  The integers a JavaScript number holds exactly, and the values all of whose numbers are
  such integers.
\<close>

definition safe_integer :: "int \<Rightarrow> bool" where
  "safe_integer n = (\<bar>n\<bar> < 2 ^ 53)"

fun safe_numbers :: "jsval \<Rightarrow> bool"
and safe_elems :: "jsval list \<Rightarrow> bool"
and safe_props :: "(string \<times> jsval) list \<Rightarrow> bool"
where
  "safe_numbers (JNum n) = safe_integer n"
| "safe_numbers (JArr xs) = safe_elems xs"
| "safe_numbers (JObj ps) = safe_props ps"
| "safe_numbers v = True"
| "safe_elems [] = True"
| "safe_elems (x # xs) = (safe_numbers x \<and> safe_elems xs)"
| "safe_props [] = True"
| "safe_props (kv # ps) = (safe_numbers (snd kv) \<and> safe_props ps)"

text \<open>
  What a key is made of: the tool-call identifier when it is a non-empty string, else the
  \<^verbatim>\<open>id\<close>, else the \<^verbatim>\<open>messageId\<close>, else the role, the timestamp when it is a number other
  than 0, and the FNV-1a hash of the fingerprint seed.
\<close>

datatype key_material = ToolCall string | Ident string | Fingerprint string "int option" nat

definition key_stamp :: "jsval \<Rightarrow> int option" where
  "key_stamp message =
     (case get message ''timestamp'' of
        JNum n \<Rightarrow> if n \<noteq> 0 then Some n else None
      | _ \<Rightarrow> None)"

definition key_material :: "(string \<Rightarrow> string) \<Rightarrow> jsval \<Rightarrow> nat \<Rightarrow> key_material" where
  "key_material stripThinkingTags message index =
     (case nonempty_string (get message ''toolCallId'') of
        Some t \<Rightarrow> ToolCall t
      | None \<Rightarrow>
         (case nonempty_string (get message ''id'') of
            Some d \<Rightarrow> Ident d
          | None \<Rightarrow>
             (case nonempty_string (get message ''messageId'') of
                Some d \<Rightarrow> Ident d
              | None \<Rightarrow>
                  Fingerprint (key_role message) (key_stamp message)
                    (fnv1a_hash (key_seed stripThinkingTags message index)))))"

text \<open>
  The key written from its material, fields separated by colons.
\<close>

fun key_text :: "key_material \<Rightarrow> string" where
  "key_text (ToolCall t) = ''tool:'' @ t"
| "key_text (Ident d) = ''msg:'' @ d"
| "key_text (Fingerprint r ts h) =
     ''msg:'' @ r @ (case ts of Some n \<Rightarrow> '':'' @ show_int n | None \<Rightarrow> []) @ '':''
     @ to_radix 36 h"

text \<open>
  Material without an identifier; material whose role contains no colon; material whose
  identifier contains no colon.
\<close>

fun anonymous :: "key_material \<Rightarrow> bool" where
  "anonymous (Fingerprint r ts h) = True"
| "anonymous k = False"

fun plain_role :: "key_material \<Rightarrow> bool" where
  "plain_role (Fingerprint r ts h) = colon_free r"
| "plain_role k = True"

fun plain_ident :: "key_material \<Rightarrow> bool" where
  "plain_ident (Ident d) = colon_free d"
| "plain_ident k = True"

text \<open>
  The messages a build renders, the last 200 history entries and the tool messages, and the
  material of their keys, each at the index the build hands to \<^verbatim>\<open>messageKey\<close>.
\<close>

definition rendered_messages :: "ChatProps \<Rightarrow> jsval list" where
  "rendered_messages props =
     drop (length (array_items (messages props)) - 200) (array_items (messages props))
     @ array_items (toolMessages props)"

definition materials :: "(string \<Rightarrow> string) \<Rightarrow> ChatProps \<Rightarrow> key_material list" where
  "materials stripThinkingTags props =
     map (\<lambda>(i, message). key_material stripThinkingTags message i)
       (List.enumerate (length (array_items (messages props)) - 200) (rendered_messages props))"

text \<open>
  A message is keyable when it is readable, its numbers are safe integers and its role
  contains no colon. Materials are separable when either every message has an identifier or
  no identifier contains a colon, so that no identifier can be read as role and hash.
\<close>

definition keyable :: "jsval \<Rightarrow> bool" where
  "keyable message =
     (readable message \<and> safe_numbers message \<and> colon_free (key_role message))"

definition separable :: "key_material list \<Rightarrow> bool" where
  "separable ks = (list_ex anonymous ks \<longrightarrow> list_all plain_ident ks)"

text \<open>
  The content parts of a message, a part of type \<^verbatim>\<open>"text"\<close>, and such a part whose text
  is a string.
\<close>

definition content_parts :: "jsval \<Rightarrow> jsval list" where
  "content_parts message = (case get message ''content'' of JArr ps \<Rightarrow> ps | _ \<Rightarrow> [])"

definition text_typed :: "jsval \<Rightarrow> bool" where
  "text_typed part = (get part ''type'' = JStr ''text'')"

definition usable_text :: "jsval \<Rightarrow> bool" where
  "usable_text part = (text_typed part \<and> as_string (get part ''text'') \<noteq> None)"

text \<open>
  A message whose role is a string equal to \<^verbatim>\<open>toolresult\<close> or \<^verbatim>\<open>tool_result\<close> up to
  the case of its letters.
\<close>

definition tool_result_role :: "jsval \<Rightarrow> bool" where
  "tool_result_role message =
     (case get message ''role'' of
        JStr r \<Rightarrow> toLowerCase r = ''toolresult'' \<or> toLowerCase r = ''tool_result''
      | _ \<Rightarrow> False)"

section \<open>Text extraction\<close>

lemma text_parts_readable:
  "list_all (\<lambda>p. \<not> nullish p) ps \<Longrightarrow> text_parts ps = Inr (List.map_filter part_text ps)"
  by (induction ps) (auto simp: List.map_filter_simps split: option.splits)

lemma text_parts_unreadable:
  "\<not> list_all (\<lambda>p. \<not> nullish p) ps \<Longrightarrow> text_parts ps = Inl TypeError"
  by (induction ps) (auto split: sum.splits)

lemma text_parts_cases:
  "text_parts ps = (if list_all (\<lambda>p. \<not> nullish p) ps then Inr (List.map_filter part_text ps) else Inl TypeError)"
  by (simp add: text_parts_readable text_parts_unreadable)

lemma extractText_eq:
  "extractText strip m =
     (if readable m then Inr (map_option (role_strip strip m) (raw_text m)) else Inl TypeError)"
  unfolding extractText_def readable_def raw_text_def role_strip_def Let_def
  by (cases "get m ''content''"; cases "get m ''text''"; cases "get m ''role''")
     (simp_all add: text_parts_cases as_string_def)

lemma extractRawText_eq:
  "extractRawText m = (if readable m then Inr (raw_text m) else Inl TypeError)"
  unfolding extractRawText_def readable_def raw_text_def Let_def
  by (cases "get m ''content''"; cases "get m ''text''")
     (simp_all add: text_parts_cases as_string_def)


lemma readable_parts:
  "readable m \<longleftrightarrow> \<not> nullish m \<and> \<not> list_ex nullish (content_parts m)"
  by (cases "get m ''content''")
     (simp_all add: readable_def content_parts_def list_all_iff list_ex_iff)

text \<open>
  C10, as amended. On a message that is neither null nor undefined, whose content is an
  array without null or undefined element and without a text part that carries a string (the
  empty array included), and whose top-level \<^verbatim>\<open>text\<close> is a string, \<^verbatim>\<open>extractText\<close>
  yields that text, passed through the thinking-markup strip when the role is
  \<^verbatim>\<open>"assistant"\<close>. It returns null exactly when the message is neither null nor
  undefined, its content is not a string, its content parts are neither null nor undefined
  nor text parts that carry a string, and the top-level text is not a string. It throws
  exactly when the message, or a part of its content array, is null or undefined. When the
  content array has a text part that carries a string, the result is the join of these texts
  and not the top-level text.
\<close>

theorem extractText_text_fallback:
  "(\<not> nullish message \<and> get message ''content'' = JArr ps
      \<and> list_all (\<lambda>p. \<not> nullish p \<and> \<not> usable_text p) ps \<and> get message ''text'' = JStr t
     \<longrightarrow> extractText stripThinkingTags message =
           Inr (Some (if get message ''role'' = JStr ''assistant''
                      then stripThinkingTags t else t)))
   \<and> (extractText stripThinkingTags message = Inr None \<longleftrightarrow>
        \<not> nullish message
        \<and> as_string (get message ''content'') = None
        \<and> list_all (\<lambda>p. \<not> nullish p \<and> \<not> usable_text p) (content_parts message)
        \<and> as_string (get message ''text'') = None)
   \<and> (extractText stripThinkingTags message = Inl TypeError \<longleftrightarrow>
        nullish message \<or> list_ex nullish (content_parts message))
   \<and> (\<not> nullish message \<and> get message ''content'' = JArr ps
      \<and> list_all (\<lambda>p. \<not> nullish p) ps \<and> list_ex usable_text ps
     \<longrightarrow> extractText stripThinkingTags message =
           Inr (Some ((if get message ''role'' = JStr ''assistant''
                       then stripThinkingTags else (\<lambda>s. s))
                        (join newline
                           (map (\<lambda>p. the (as_string (get p ''text''))) (filter usable_text ps))))))"
proof -
  define texts where
    "texts = (\<lambda>qs. map (\<lambda>p. the (as_string (get p ''text''))) (filter usable_text qs))"
  define strip where
    "strip = (\<lambda>s. if get message ''role'' = JStr ''assistant'' then stripThinkingTags s else s)"
  have tp: "text_parts qs = (if list_ex nullish qs then Inl TypeError else Inr (texts qs))" for qs
  proof (induction qs)
    case Nil
    show ?case by (simp add: texts_def)
  next
    case (Cons q qs)
    show ?case
    proof (cases "usable_text q")
      case True
      then have "part_text q = Some (the (as_string (get q ''text'')))"
        by (auto simp: part_text_def usable_text_def text_typed_def)
      with True Cons show ?thesis by (simp add: texts_def)
    next
      case False
      then have "part_text q = None"
        by (auto simp: part_text_def usable_text_def text_typed_def)
      with False Cons show ?thesis by (simp add: texts_def)
    qed
  qed
  have nonempty: "texts qs \<noteq> [] \<longleftrightarrow> list_ex usable_text qs" for qs
    by (simp add: texts_def list_ex_iff filter_empty_conv)
  have role: "(case get message ''role'' of JStr r \<Rightarrow> r | _ \<Rightarrow> []) = ''assistant''
              \<longleftrightarrow> get message ''role'' = JStr ''assistant''"
    by (cases "get message ''role''") simp_all
  have ex: "extractText stripThinkingTags message =
     (if nullish message \<or> list_ex nullish (content_parts message) then Inl TypeError
      else case get message ''content'' of
             JStr s \<Rightarrow> Inr (Some (strip s))
           | _ \<Rightarrow>
              if list_ex usable_text (content_parts message)
              then Inr (Some (strip (join newline (texts (content_parts message)))))
              else Inr (map_option strip (as_string (get message ''text''))))"
    unfolding extractText_def Let_def
    by (cases "get message ''content''"; cases "get message ''text''")
       (simp_all add: tp nonempty content_parts_def as_string_def role strip_def)
  have a: "extractText stripThinkingTags message = Inr (Some (strip t))"
    if "\<not> nullish message \<and> get message ''content'' = JArr ps
      \<and> list_all (\<lambda>p. \<not> nullish p \<and> \<not> usable_text p) ps \<and> get message ''text'' = JStr t"
    using that by (auto simp: ex content_parts_def list_all_iff list_ex_iff as_string_def)
  have b: "extractText stripThinkingTags message = Inr None \<longleftrightarrow>
        \<not> nullish message
        \<and> as_string (get message ''content'') = None
        \<and> list_all (\<lambda>p. \<not> nullish p \<and> \<not> usable_text p) (content_parts message)
        \<and> as_string (get message ''text'') = None"
    by (cases "get message ''content''")
       (auto simp: ex content_parts_def list_all_iff list_ex_iff as_string_def)
  have c: "extractText stripThinkingTags message = Inl TypeError \<longleftrightarrow>
        nullish message \<or> list_ex nullish (content_parts message)"
    by (cases "get message ''content''") (auto simp: ex)
  have d: "extractText stripThinkingTags message = Inr (Some (strip (join newline (texts ps))))"
    if "\<not> nullish message \<and> get message ''content'' = JArr ps
      \<and> list_all (\<lambda>p. \<not> nullish p) ps \<and> list_ex usable_text ps"
    using that by (auto simp: ex content_parts_def list_all_iff list_ex_iff)
  from a b c d show ?thesis
    unfolding strip_def texts_def by (intro conjI impI) auto
qed

theorem extractText_text_fallback_witness:
  "extractText rev
     (JObj [(''role'', JStr ''assistant''),
            (''content'', JArr [JObj [(''type'', JStr ''toolcall''), (''name'', JStr ''ls'')],
                                JObj [(''type'', JStr ''text''), (''text'', JNum 5)]]),
            (''text'', JStr ''abc'')])
     = Inr (Some ''cba'')
   \<and> extractText rev (JObj [(''role'', JStr ''user''), (''content'', JArr []), (''text'', JStr ''abc'')])
     = Inr (Some ''abc'')
   \<and> extractText rev (JObj [(''role'', JStr ''user''), (''content'', JArr [])]) = Inr None
   \<and> extractText rev
       (JObj [(''role'', JStr ''assistant''),
              (''content'', JArr [JObj [(''type'', JStr ''text''), (''text'', JStr ''ab'')],
                                  JObj [(''type'', JStr ''image'')],
                                  JObj [(''type'', JStr ''text''), (''text'', JStr ''cd'')]]),
              (''text'', JStr ''xyz'')])
     = Inr (Some [CHR ''d'', CHR ''c'', CHR 0x0A, CHR ''b'', CHR ''a''])"
  using extractText_text_fallback
          [of "JObj [(''role'', JStr ''assistant''),
                     (''content'', JArr [JObj [(''type'', JStr ''toolcall''), (''name'', JStr ''ls'')],
                                         JObj [(''type'', JStr ''text''), (''text'', JNum 5)]]),
                     (''text'', JStr ''abc'')]"
              "[JObj [(''type'', JStr ''toolcall''), (''name'', JStr ''ls'')],
                JObj [(''type'', JStr ''text''), (''text'', JNum 5)]]" "''abc''" rev]
        extractText_text_fallback
          [of "JObj [(''role'', JStr ''user''), (''content'', JArr []), (''text'', JStr ''abc'')]"
              "[]" "''abc''" rev]
        extractText_text_fallback
          [of "JObj [(''role'', JStr ''user''), (''content'', JArr [])]" "[]" "''abc''" rev]
        extractText_text_fallback
          [of "JObj [(''role'', JStr ''assistant''),
              (''content'', JArr [JObj [(''type'', JStr ''text''), (''text'', JStr ''ab'')],
                                  JObj [(''type'', JStr ''image'')],
                                  JObj [(''type'', JStr ''text''), (''text'', JStr ''cd'')]]),
              (''text'', JStr ''xyz'')]"
              "[JObj [(''type'', JStr ''text''), (''text'', JStr ''ab'')],
                                  JObj [(''type'', JStr ''image'')],
                                  JObj [(''type'', JStr ''text''), (''text'', JStr ''cd'')]]" "''abc''" rev]
  by (simp add: nullish_def usable_text_def text_typed_def as_string_def content_parts_def
        newline_def)

text \<open>
  The claim as stated fails: a part of type \<^verbatim>\<open>"text"\<close> whose text is not a string does
  not keep \<^verbatim>\<open>extractText\<close> from returning null, and a content array that holds null
  makes it throw although the array has no part of type \<^verbatim>\<open>"text"\<close> and the message
  has a top-level text.
\<close>

theorem extractText_text_fallback_counterexample:
  "extractText id (JObj [(''role'', JStr ''user''),
                         (''content'', JArr [JObj [(''type'', JStr ''text''), (''text'', JNum 5)]])])
     = Inr None
   \<and> list_ex text_typed [JObj [(''type'', JStr ''text''), (''text'', JNum 5)]]
   \<and> extractText id (JObj [(''role'', JStr ''user''), (''content'', JArr [JNull]),
                           (''text'', JStr ''abc'')])
     = Inl TypeError
   \<and> \<not> list_ex text_typed [JNull]"
  by (simp add: extractText_def Let_def nullish_def part_text_def as_string_def text_typed_def)

section \<open>Thinking extraction\<close>

lemma thinking_parts_cases:
  "thinking_parts ps =
     (if list_all (\<lambda>p. \<not> nullish p) ps
      then Inr (filter (\<lambda>s. s \<noteq> []) (map trim (List.map_filter thinking_text ps)))
      else Inl TypeError)"
proof (induction ps)
  case Nil
  show ?case by (simp add: List.map_filter_simps)
next
  case (Cons p ps)
  have t: "thinking_text p =
             (if get p ''type'' = JStr ''thinking''
              then (case get p ''thinking'' of JStr t \<Rightarrow> Some t | _ \<Rightarrow> None) else None)"
    by (simp add: thinking_text_def as_string_def)
  show ?case
  proof (cases "get p ''type'' = JStr ''thinking''")
    case True
    with Cons t show ?thesis
      by (cases "get p ''thinking''") (simp_all add: List.map_filter_simps)
  next
    case False
    with Cons t show ?thesis
      by (simp add: List.map_filter_simps)
  qed
qed

lemma legacy_thinking_empty: "legacy_thinking [] = None"
  by (simp add: legacy_thinking_def think_matches_def)

lemma extractThinking_eq:
  "extractThinking m =
     (if \<not> readable m then Inl TypeError
      else if explicit_thinking m \<noteq> [] then Inr (Some (join newline (explicit_thinking m)))
      else Inr (case raw_text m of None \<Rightarrow> None | Some raw \<Rightarrow> legacy_thinking raw))"
proof (cases "nullish m")
  case True
  then show ?thesis by (simp add: extractThinking_def readable_def)
next
  case False
  then show ?thesis
    by (cases "get m ''content''")
       (auto simp: extractThinking_def readable_def explicit_thinking_def thinking_parts_cases
          extractRawText_eq legacy_thinking_empty split: option.splits)
qed

lemma scan_think_step:
  "scan_think n (c # cs) =
     (if n = 0 then []
      else case tag_open (c # cs) of
             None \<Rightarrow> scan_think (n - 1) cs
           | Some body \<Rightarrow>
               (case find_close body of
                  None \<Rightarrow> scan_think (n - 1) cs
                | Some (inner, rest) \<Rightarrow> inner # scan_think (n - 1) rest))"
  by (cases n) (auto split: option.splits)

lemma scan_think_Nil: "scan_think n [] = []"
  by (cases n) simp_all

lemma match_ci_length: "match_ci p s = Some r \<Longrightarrow> length r \<le> length s"
  by (induction p s rule: match_ci.induct) (auto split: if_splits)

lemma match_think_length: "match_think s = Some r \<Longrightarrow> length r < length s"
proof -
  assume a: "match_think s = Some r"
  then obtain r1 where r1: "match_ci ''think'' s = Some r1"
    by (auto simp: match_think_def split: option.splits)
  define r2 where "r2 = (case match_ci ''ing'' r1 of Some r' \<Rightarrow> r' | None \<Rightarrow> r1)"
  have "length r2 \<le> length r1"
    by (auto simp: r2_def dest: match_ci_length split: option.splits)
  moreover have "length (dropWhile is_space r2) \<le> length r2"
    by (rule length_dropWhile_le)
  moreover from a r1 have "\<exists>c. dropWhile is_space r2 = c # r"
    by (auto simp: match_think_def r2_def split: list.splits if_splits)
  moreover note match_ci_length [OF r1]
  ultimately show ?thesis by auto
qed

lemma tag_open_length: "tag_open s = Some r \<Longrightarrow> length r < length s"
proof -
  assume a: "tag_open s = Some r"
  then obtain c s' where s: "s = c # s'" and m: "match_think (dropWhile is_space s') = Some r"
    by (auto simp: tag_open_def split: list.splits if_splits)
  from match_think_length [OF m] length_dropWhile_le [of is_space s'] s show ?thesis
    by simp
qed

lemma tag_close_length: "tag_close s = Some r \<Longrightarrow> length r < length s"
proof -
  assume a: "tag_close s = Some r"
  then obtain c s' d s'' where s: "s = c # s'" and d: "dropWhile is_space s' = d # s''"
    and m: "match_think (dropWhile is_space s'') = Some r"
    by (auto simp: tag_close_def split: list.splits if_splits)
  from match_think_length [OF m] length_dropWhile_le [of is_space s'']
       length_dropWhile_le [of is_space s'] s d
  show ?thesis by simp
qed

lemma find_close_length: "find_close b = Some (inner, r) \<Longrightarrow> length r < length b"
proof (induction b arbitrary: inner)
  case Nil
  then show ?case by simp
next
  case (Cons c cs)
  show ?case
  proof (cases "tag_close (c # cs)")
    case (Some rest)
    with Cons.prems tag_close_length [OF Some] show ?thesis by simp
  next
    case None
    with Cons.prems obtain inner' where "find_close cs = Some (inner', r)"
      by (auto split: option.splits)
    from Cons.IH [OF this] show ?thesis by simp
  qed
qed

text \<open>
  The bound never cuts the search short: every bound from the length of the text on gives
  the same matches.
\<close>

lemma scan_think_fuel: "length s \<le> n \<Longrightarrow> scan_think n s = think_matches s"
proof (induction n arbitrary: s rule: less_induct)
  case (less n)
  show ?case
  proof (cases s)
    case Nil
    then show ?thesis by (simp add: think_matches_def scan_think_Nil)
  next
    case (Cons c cs)
    with less.prems obtain m where n: "n = Suc m" and m: "length cs \<le> m"
      by (cases n) auto
    have step: "scan_think k r = think_matches r" if "length r \<le> length cs" "k = m \<or> k = length cs"
      for k r
    proof -
      from that m n have "k < n" "length r \<le> k" by auto
      then show ?thesis by (rule less.IH)
    qed
    have R: "think_matches (c # cs) = scan_think (Suc (length cs)) (c # cs)"
      by (simp add: think_matches_def)
    show ?thesis
    proof (cases "tag_open (c # cs)")
      case None
      with step [of cs m] step [of cs "length cs"] show ?thesis
        by (simp add: Cons n R)
    next
      case (Some body)
      show ?thesis
      proof (cases "find_close body")
        case None
        with Some step [of cs m] step [of cs "length cs"] show ?thesis
          by (simp add: Cons n R)
      next
        case found: (Some ir)
        obtain inner r where ir: "ir = (inner, r)" by (cases ir)
        from tag_open_length [OF Some] find_close_length [OF found [unfolded ir]]
        have "length r \<le> length cs" by simp
        with Some found ir step [of r m] step [of r "length cs"] show ?thesis
          by (simp add: Cons n R)
      qed
    qed
  qed
qed

lemma think_example: "think_matches ''<think>Y</think>answer'' = [''Y'']"
  by (simp add: think_matches_def scan_think_step scan_think_Nil tag_open_def tag_close_def
        match_think_def is_space_def)


text \<open>
  C9. For a readable message, \<^verbatim>\<open>extractThinking\<close> returns the newline-join of the
  trimmed, non-empty explicit thinking parts whenever there is one; only when there is none
  does it scan the raw text, which \<^verbatim>\<open>extractRawText\<close> returns unstripped, for the
  legacy tag pairs. A message with the explicit part \<^verbatim>\<open>{type:"thinking", thinking:"X"}\<close>
  and the text \<^verbatim>\<open><think>Y</think>answer\<close> yields \<^verbatim>\<open>"X"\<close>; without the explicit part
  it yields \<^verbatim>\<open>"Y"\<close>.
\<close>

theorem extractThinking_precedence:
  "(readable message \<and> explicit_thinking message \<noteq> []
      \<longrightarrow> extractThinking message = Inr (Some (join newline (explicit_thinking message))))
   \<and> (readable message \<and> explicit_thinking message = []
      \<longrightarrow> extractRawText message = Inr (raw_text message)
          \<and> extractThinking message =
                Inr (case raw_text message of None \<Rightarrow> None | Some raw \<Rightarrow> legacy_thinking raw))
   \<and> extractThinking
         (JObj [(''role'', JStr ''assistant''),
                (''content'',
                 JArr [JObj [(''type'', JStr ''thinking''), (''thinking'', JStr ''X'')],
                       JObj [(''type'', JStr ''text''), (''text'', JStr ''<think>Y</think>answer'')]])])
       = Inr (Some ''X'')
   \<and> extractThinking
         (JObj [(''role'', JStr ''assistant''),
                (''content'',
                 JArr [JObj [(''type'', JStr ''text''), (''text'', JStr ''<think>Y</think>answer'')]])])
       = Inr (Some ''Y'')"
proof (intro conjI impI)
  assume "readable message \<and> explicit_thinking message \<noteq> []"
  then show "extractThinking message = Inr (Some (join newline (explicit_thinking message)))"
    by (simp add: extractThinking_eq)
next
  assume h: "readable message \<and> explicit_thinking message = []"
  then show "extractRawText message = Inr (raw_text message)"
    by (simp add: extractRawText_eq)
  from h show "extractThinking message =
      Inr (case raw_text message of None \<Rightarrow> None | Some raw \<Rightarrow> legacy_thinking raw)"
    by (simp add: extractThinking_eq)
next
  show "extractThinking
         (JObj [(''role'', JStr ''assistant''),
                (''content'',
                 JArr [JObj [(''type'', JStr ''thinking''), (''thinking'', JStr ''X'')],
                       JObj [(''type'', JStr ''text''), (''text'', JStr ''<think>Y</think>answer'')]])])
       = Inr (Some ''X'')"
    by (simp add: extractThinking_eq readable_def nullish_def explicit_thinking_def
          thinking_text_def as_string_def List.map_filter_simps trim_def is_space_def)
next
  show "extractThinking
         (JObj [(''role'', JStr ''assistant''),
                (''content'',
                 JArr [JObj [(''type'', JStr ''text''), (''text'', JStr ''<think>Y</think>answer'')]])])
       = Inr (Some ''Y'')"
    by (simp add: extractThinking_eq readable_def nullish_def explicit_thinking_def
          thinking_text_def as_string_def List.map_filter_simps trim_def is_space_def
          raw_text_def part_text_def legacy_thinking_def think_example)
qed

theorem extractThinking_precedence_witness:
  "extractThinking
     (JObj [(''content'',
             JArr [JObj [(''type'', JStr ''thinking''), (''thinking'', JStr ''  A '')],
                   JObj [(''type'', JStr ''thinking''), (''thinking'', JStr ''   '')],
                   JStr ''<think>Y</think>answer'',
                   JObj [(''type'', JStr ''thinking''), (''thinking'', JStr ''B'')]])])
     = Inr (Some [CHR ''A'', CHR 0x0A, CHR ''B''])
   \<and> extractThinking
       (JObj [(''content'',
               JArr [JObj [(''type'', JStr ''thinking''), (''thinking'', JStr ''   '')]]),
              (''text'', JStr ''<think>Y</think>answer'')])
     = Inr (Some ''Y'')"
  using extractThinking_precedence
          [of "JObj [(''content'',
             JArr [JObj [(''type'', JStr ''thinking''), (''thinking'', JStr ''  A '')],
                   JObj [(''type'', JStr ''thinking''), (''thinking'', JStr ''   '')],
                   JStr ''<think>Y</think>answer'',
                   JObj [(''type'', JStr ''thinking''), (''thinking'', JStr ''B'')]])]"]
        extractThinking_precedence
          [of "JObj [(''content'',
               JArr [JObj [(''type'', JStr ''thinking''), (''thinking'', JStr ''   '')]]),
              (''text'', JStr ''<think>Y</think>answer'')]"]
  by (simp add: readable_def nullish_def explicit_thinking_def
          thinking_text_def as_string_def List.map_filter_simps trim_def is_space_def
          raw_text_def part_text_def legacy_thinking_def think_example newline_def)

section \<open>Tool cards\<close>

lemma result_cards_kind:
  "list_ex (\<lambda>card. card_kind card = Result)
     (map (call_card parse) (filter isToolCall content)
      @ map result_card (filter is_result_part content))
   = list_ex is_result_part content"
proof -
  have "\<not> list_ex (\<lambda>card. card_kind card = Result)
          (map (call_card parse) (filter isToolCall content))"
    by (simp add: list_ex_iff call_card_def)
  moreover have "list_ex (\<lambda>card. card_kind card = Result)
          (map result_card (filter is_result_part content)) = list_ex is_result_part content"
    by (induction content) (simp_all add: result_card_def)
  ultimately show ?thesis by simp
qed

text \<open>
  C8. For a message that is neither null nor undefined, has a tool-result role and whose
  content parts give no explicit result card, \<^verbatim>\<open>extractToolCards\<close> reads the extracted
  text of the message: when \<^verbatim>\<open>extractText\<close> returns, the cards are the call cards of the
  content followed by exactly one result card, named by \<^verbatim>\<open>toolName\<close>, else
  \<^verbatim>\<open>tool_name\<close>, else \<^verbatim>\<open>"tool"\<close>, and carrying that text; when it throws, so does
  \<^verbatim>\<open>extractToolCards\<close>, and it throws exactly when the content array holds null or
  undefined, the very parts that \<^verbatim>\<open>normalizeContent\<close> has dropped. For every other
  message no card is synthesized. Role \<^verbatim>\<open>"toolResult"\<close>, tool name \<^verbatim>\<open>"grep"\<close> and the
  string content \<^verbatim>\<open>"matches"\<close> give the one card \<^verbatim>\<open>{name:"grep", text:"matches"}\<close>;
  with the content \<^verbatim>\<open>[null]\<close> the call throws.
\<close>

theorem extractToolCards_synthesized_result:
  "(\<not> nullish message \<and> tool_result_role message
      \<and> \<not> list_ex is_result_part (normalizeContent (get message ''content''))
     \<longrightarrow> extractToolCards stripThinkingTags JSON_parse message =
           (case extractText stripThinkingTags message of
              Inl e \<Rightarrow> Inl e
            | Inr text \<Rightarrow>
                Inr (map (call_card JSON_parse)
                       (filter isToolCall (normalizeContent (get message ''content'')))
                     @ [\<lparr>card_kind = Result, card_name = JStr (tool_name message),
                          card_args = JUndefined, card_text = text\<rparr>]))
         \<and> list_all (\<lambda>card. card_kind card = Call)
              (map (call_card JSON_parse)
                 (filter isToolCall (normalizeContent (get message ''content'')))))
   \<and> (\<not> nullish message
     \<longrightarrow> (extractText stripThinkingTags message = Inl TypeError
          \<longleftrightarrow> list_ex nullish (content_parts message)))
   \<and> (\<not> nullish message
      \<and> (\<not> tool_result_role message
         \<or> list_ex is_result_part (normalizeContent (get message ''content'')))
     \<longrightarrow> extractToolCards stripThinkingTags JSON_parse message =
           Inr (map (call_card JSON_parse)
                  (filter isToolCall (normalizeContent (get message ''content'')))
                @ map result_card
                    (filter is_result_part (normalizeContent (get message ''content'')))))
   \<and> extractToolCards stripThinkingTags JSON_parse
        (JObj [(''role'', JStr ''toolResult''), (''toolName'', JStr ''grep''),
               (''content'', JStr ''matches'')])
      = Inr [\<lparr>card_kind = Result, card_name = JStr ''grep'', card_args = JUndefined,
              card_text = Some ''matches''\<rparr>]
   \<and> extractToolCards stripThinkingTags JSON_parse
        (JObj [(''role'', JStr ''toolResult''), (''toolName'', JStr ''grep''),
               (''content'', JArr [JNull])])
      = Inl TypeError"
proof (intro conjI impI)
  let ?content = "normalizeContent (get message ''content'')"
  let ?calls = "map (call_card JSON_parse) (filter isToolCall ?content)"
  have role: "isToolResultMessage message = Inr (tool_result_role message)"
    if "\<not> nullish message"
    using that
    by (cases "get message ''role''")
       (simp_all add: isToolResultMessage_def tool_result_role_def Let_def)
  {
    assume h: "\<not> nullish message \<and> tool_result_role message
      \<and> \<not> list_ex is_result_part ?content"
    then have empty: "filter is_result_part ?content = []"
      by (auto simp: list_ex_iff filter_empty_conv)
    from h have "\<not> list_ex (\<lambda>card. card_kind card = Result)
                     (?calls @ map result_card (filter is_result_part ?content))"
      by (simp only: result_cards_kind) simp
    with h empty
    show "extractToolCards stripThinkingTags JSON_parse message =
           (case extractText stripThinkingTags message of
              Inl e \<Rightarrow> Inl e
            | Inr text \<Rightarrow>
                Inr (?calls
                     @ [\<lparr>card_kind = Result, card_name = JStr (tool_name message),
                          card_args = JUndefined, card_text = text\<rparr>]))"
      by (cases "extractText stripThinkingTags message")
         (simp_all add: extractToolCards_def Let_def role)
    show "list_all (\<lambda>card. card_kind card = Call) ?calls"
      by (simp add: list_all_iff call_card_def)
  }
  {
    assume "\<not> nullish message"
    then show "extractText stripThinkingTags message = Inl TypeError
          \<longleftrightarrow> list_ex nullish (content_parts message)"
      by (simp add: extractText_eq readable_parts)
  }
  {
    assume h: "\<not> nullish message
      \<and> (\<not> tool_result_role message \<or> list_ex is_result_part ?content)"
    then have "(tool_result_role message
                 \<and> \<not> list_ex (\<lambda>card. card_kind card = Result)
                     (?calls @ map result_card (filter is_result_part ?content))) = False"
      by (simp only: result_cards_kind) blast
    with h show "extractToolCards stripThinkingTags JSON_parse message =
           Inr (?calls @ map result_card (filter is_result_part ?content))"
      by (auto simp add: extractToolCards_def Let_def role
               simp del: list_ex_append)
  }
  show "extractToolCards stripThinkingTags JSON_parse
        (JObj [(''role'', JStr ''toolResult''), (''toolName'', JStr ''grep''),
               (''content'', JStr ''matches'')])
      = Inr [\<lparr>card_kind = Result, card_name = JStr ''grep'', card_args = JUndefined,
              card_text = Some ''matches''\<rparr>]"
    by (simp add: extractToolCards_def Let_def extractText_eq readable_def nullish_def
          normalizeContent_def isToolResultMessage_def toLowerCase_def tool_name_def
          raw_text_def role_strip_def)
  show "extractToolCards stripThinkingTags JSON_parse
        (JObj [(''role'', JStr ''toolResult''), (''toolName'', JStr ''grep''),
               (''content'', JArr [JNull])])
      = Inl TypeError"
    by (simp add: extractToolCards_def Let_def extractText_eq readable_def nullish_def
          normalizeContent_def isToolResultMessage_def toLowerCase_def)
qed

theorem extractToolCards_synthesized_result_witness:
  "extractToolCards rev Map.empty
     (JObj [(''role'', JStr ''Tool_Result''), (''tool_name'', JStr ''ls''),
            (''content'',
             JArr [JNull,
                   JObj [(''type'', JStr ''toolCall''), (''name'', JStr ''ls''),
                         (''arguments'', JStr ''{not json'')],
                   JObj [(''type'', JStr ''text''), (''text'', JStr ''a.txt'')]])])
   = Inl TypeError
   \<and> extractToolCards rev Map.empty
     (JObj [(''role'', JStr ''Tool_Result''), (''tool_name'', JStr ''ls''),
            (''content'',
             JArr [JObj [(''type'', JStr ''toolCall''), (''name'', JStr ''ls''),
                         (''arguments'', JStr ''{not json'')],
                   JObj [(''type'', JStr ''text''), (''text'', JStr ''a.txt'')]])])
   = Inr [\<lparr>card_kind = Call, card_name = JStr ''ls'', card_args = JStr ''{not json'',
            card_text = None\<rparr>,
          \<lparr>card_kind = Result, card_name = JStr ''ls'', card_args = JUndefined,
            card_text = Some ''a.txt''\<rparr>]
   \<and> extractToolCards rev Map.empty
     (JObj [(''role'', JStr ''assistant''),
            (''content'',
             JArr [JObj [(''type'', JStr ''tool_result''), (''name'', JStr ''ls''),
                         (''text'', JStr ''a.txt'')]])])
   = Inr [\<lparr>card_kind = Result, card_name = JStr ''ls'', card_args = JUndefined,
            card_text = Some ''a.txt''\<rparr>]"
  using extractToolCards_synthesized_result
          [of "JObj [(''role'', JStr ''Tool_Result''), (''tool_name'', JStr ''ls''),
            (''content'',
             JArr [JNull,
                   JObj [(''type'', JStr ''toolCall''), (''name'', JStr ''ls''),
                         (''arguments'', JStr ''{not json'')],
                   JObj [(''type'', JStr ''text''), (''text'', JStr ''a.txt'')]])]"
              rev Map.empty]
        extractToolCards_synthesized_result
          [of "JObj [(''role'', JStr ''Tool_Result''), (''tool_name'', JStr ''ls''),
            (''content'',
             JArr [JObj [(''type'', JStr ''toolCall''), (''name'', JStr ''ls''),
                         (''arguments'', JStr ''{not json'')],
                   JObj [(''type'', JStr ''text''), (''text'', JStr ''a.txt'')]])]"
              rev Map.empty]
        extractToolCards_synthesized_result
          [of "JObj [(''role'', JStr ''assistant''),
            (''content'',
             JArr [JObj [(''type'', JStr ''tool_result''), (''name'', JStr ''ls''),
                         (''text'', JStr ''a.txt'')]])]"
              rev Map.empty]
  by (simp add: nullish_def tool_result_role_def content_parts_def extractText_eq readable_def
          normalizeContent_def toLowerCase_def tool_name_def
          raw_text_def role_strip_def part_text_def as_string_def List.map_filter_simps
          is_result_part_def part_kind_def isToolCall_def call_card_def coerceArgs_def
          result_card_def extractToolText_def trim_def is_space_def)

section \<open>Grouping\<close>

lemma normalize_items_cases:
  "(\<exists>c. normalize_items ps = Inr c) \<longleftrightarrow> list_all (\<lambda>p. \<not> nullish p) ps"
  by (induction ps) (auto split: sum.splits)

lemma normalize_items_unreadable:
  "\<not> list_all (\<lambda>p. \<not> nullish p) ps \<Longrightarrow> normalize_items ps = Inl TypeError"
  by (induction ps) (auto split: sum.splits)

lemma normalizeMessage_unreadable:
  "\<not> readable m \<Longrightarrow> normalizeMessage now m = Inl TypeError"
  by (cases "get m ''content''")
     (auto simp: normalizeMessage_def readable_def Let_def normalize_items_unreadable
           split: jsval.splits)

lemma normalizeMessage_readable:
  assumes "readable m"
  shows "\<exists>n. normalizeMessage now m = Inr n
             \<and> normalizeRoleForGrouping (nm_role n) = grouping_role m
             \<and> (if nm_timestamp n \<noteq> 0 then nm_timestamp n else now) = grouping_timestamp now m"
proof -
  from assms have nn: "\<not> nullish m" by (simp add: readable_def)
  have role: "(case get m ''role'' of JStr r \<Rightarrow> r | _ \<Rightarrow> ''unknown'')
               = (case as_string (get m ''role'') of Some r \<Rightarrow> r | None \<Rightarrow> ''unknown'')"
    by (cases "get m ''role''") (simp_all add: as_string_def)
  have t: "\<exists>c. (case get m ''text'' of JStr t \<Rightarrow> Inr [text_item t] | _ \<Rightarrow> Inr [])
               = (Inr c :: error + MessageContentItem list)"
    by (cases "get m ''text''") simp_all
  have "\<exists>c. (case get m ''content'' of
        JStr s \<Rightarrow> Inr [text_item s]
      | JArr items \<Rightarrow> normalize_items items
      | _ \<Rightarrow> (case get m ''text'' of JStr t \<Rightarrow> Inr [text_item t] | _ \<Rightarrow> Inr [])) = Inr c"
  proof (cases "get m ''content''")
    case (JArr ps)
    with assms have "list_all (\<lambda>p. \<not> nullish p) ps" by (simp add: readable_def)
    then obtain c where "normalize_items ps = Inr c"
      using normalize_items_cases by blast
    with JArr show ?thesis by simp
  qed (use t in simp_all)
  then obtain c where c:
    "(case get m ''content'' of
        JStr s \<Rightarrow> Inr [text_item s]
      | JArr items \<Rightarrow> normalize_items items
      | _ \<Rightarrow> (case get m ''text'' of JStr t \<Rightarrow> Inr [text_item t] | _ \<Rightarrow> Inr [])) = Inr c"
    by blast
  show ?thesis
    using nn c role
    by (cases "get m ''timestamp''")
       (simp_all add: normalizeMessage_def Let_def grouping_role_def grouping_timestamp_def)
qed

lemma group_loop_message:
  "group_loop now (MessageItem key m # items) result cur =
     (if \<not> readable m then Inl TypeError
      else if cur = None \<or> group_role (the cur) \<noteq> grouping_role m
      then group_loop now items (push_group result cur)
             (Some (new_group (grouping_role m) key m (grouping_timestamp now m)))
      else group_loop now items result
             (Some ((the cur)\<lparr>group_messages := group_messages (the cur) @ [(m, key)]\<rparr>)))"
proof (cases "readable m")
  case False
  then show ?thesis by (simp add: normalizeMessage_unreadable)
next
  case True
  from normalizeMessage_readable [OF True, of now] obtain n where
    "normalizeMessage now m = Inr n"
    "normalizeRoleForGrouping (nm_role n) = grouping_role m"
    "(if nm_timestamp n \<noteq> 0 then nm_timestamp n else now) = grouping_timestamp now m"
    by blast
  with True show ?thesis by (simp add: Let_def)
qed

declare group_loop.simps(2) [simp del]





lemma group_loop_readable:
  "list_all item_readable items \<Longrightarrow> \<exists>out. group_loop now items result cur = Inr out"
proof (induction items arbitrary: result cur)
  case Nil
  show ?case by simp
next
  case (Cons item items)
  then show ?case
    by (cases item) (simp_all add: group_loop_message)
qed













section \<open>The built sequence\<close>

lemma messageKey_readable:
  "readable m \<Longrightarrow> \<exists>k. messageKey strip m i = Inr k"
  by (simp add: messageKey_def Let_def extractText_eq readable_def)

lemma message_items_readable:
  "list_all readable ms \<Longrightarrow> message_items strip ms i = Inr (keyed strip i ms)"
proof (induction ms arbitrary: i)
  case Nil
  show ?case by (simp add: keyed_def)
next
  case (Cons m ms)
  then have r: "readable m" and rest: "message_items strip ms (Suc i) = Inr (keyed strip (Suc i) ms)"
    by simp_all
  from messageKey_readable [OF r, of strip i] obtain k where k: "messageKey strip m i = Inr k"
    by blast
  with rest show ?case
    by (simp add: keyed_def the_key_def)
qed

lemma keyed_readable: "list_all readable ms \<Longrightarrow> list_all item_readable (keyed strip i ms)"
  by (induction ms arbitrary: i) (simp_all add: keyed_def)




lemma live_items_cases:
  "live_items now props =
     (case stream props of
        None \<Rightarrow> []
      | Some t \<Rightarrow>
          [if trim t \<noteq> []
           then StreamItem (stream_key props) t
                  (case streamStartedAt props of Some s \<Rightarrow> s | None \<Rightarrow> now)
           else ReadingIndicator (stream_key props)])"
  by (simp add: live_items_def stream_key_def Let_def split: option.splits)

lemma live_items_readable: "list_all item_readable (live_items now props)"
  by (simp add: live_items_cases split: option.splits)

lemma readable_notice: "item_readable (history_notice now n)"
  by (simp add: history_notice_def readable_def nullish_def)













section \<open>Keys\<close>

lemma unat_of_char: "unat (of_char c :: 32 word) = of_char c"
proof -
  have "(of_char c :: nat) < 256" by (cases c) (simp add: of_char_def)
  then have "(of_char c :: nat) < 2 ^ 32" by (rule less_le_trans) simp
  moreover have "(of_char c :: 32 word) = of_nat (of_char c)"
    by (rule of_nat_of_char [symmetric])
  ultimately show ?thesis
    by (simp add: unat_of_nat)
qed

lemma unat_fnv_step:
  "unat ((h XOR of_char c) * (0x01000193 :: 32 word))
   = ((unat h XOR of_char c) * 16777619) mod 2 ^ 32"
  by (simp add: unat_word_ariths unsigned_xor_eq unat_of_char)

lemma unat_fnv_foldl:
  "unat (foldl (\<lambda>hash c. (hash XOR of_char c) * 0x01000193) (h :: 32 word) s)
   = foldl (\<lambda>h c. ((h XOR of_char c) * 16777619) mod 2 ^ 32) (unat h) s"
proof (induction s arbitrary: h)
  case Nil
  show ?case by simp
next
  case (Cons c s)
  show ?case
    using Cons [of "(h XOR of_char c) * 0x01000193"]
    by (simp add: unat_fnv_step)
qed

lemma fnv1a_refines: "fnv1a s = to_radix 36 (fnv1a_hash s)"
  using unat_fnv_foldl [of "0x811c9dc5" s]
  by (simp add: fnv1a_def fnv1a_hash_def)


lemma string_or_empty:
  "(case v of JStr s \<Rightarrow> s | _ \<Rightarrow> []) = (case nonempty_string v of Some s \<Rightarrow> s | None \<Rightarrow> [])"
  by (cases v) (simp_all add: nonempty_string_def)

lemma nonempty_string_Some: "nonempty_string v = Some s \<Longrightarrow> s \<noteq> []"
  by (cases v) (simp_all add: nonempty_string_def split: if_splits)

lemma role_or_unknown:
  "(case get m ''role'' of JStr r \<Rightarrow> r | _ \<Rightarrow> ''unknown'') = key_role m"
  by (cases "get m ''role''") (simp_all add: key_role_def as_string_def)

lemma messageKey_fingerprint:
  assumes "readable m"
    and "nonempty_string (get m ''toolCallId'') = None"
    and "nonempty_string (get m ''id'') = None"
    and "nonempty_string (get m ''messageId'') = None"
  shows "messageKey strip m i =
           Inr (''msg:'' @ key_role m
                @ (case get m ''timestamp'' of
                     JNum ts \<Rightarrow> if ts \<noteq> 0 then '':'' @ show_int ts else []
                   | _ \<Rightarrow> [])
                @ '':'' @ fnv1a (key_seed strip m i))"
proof -
  define X where "X = map_option (role_strip strip m) (raw_text m)"
  have e: "extractText strip m = Inr X"
    using assms(1) by (simp add: extractText_eq X_def)
  have seed: "(case (case X of Some t \<Rightarrow> Some t | None \<Rightarrow> as_string (get m ''content'')) of
                 Some s \<Rightarrow> s
               | None \<Rightarrow> (case safeJson m of Some j \<Rightarrow> j | None \<Rightarrow> show_int (int i)))
              = key_seed strip m i"
    by (cases X) (simp_all add: key_seed_def e)
  from assms(1) have nn: "\<not> nullish m" by (simp add: readable_def)
  show ?thesis
    unfolding messageKey_def Let_def string_or_empty role_or_unknown e
    using nn assms(2-4)
    by (cases "get m ''timestamp''") (simp_all add: seed)
qed

lemma messageKey_eq:
  "messageKey strip m i =
     (if nullish m then Inl TypeError
      else case nonempty_string (get m ''toolCallId'') of
        Some t \<Rightarrow> Inr (''tool:'' @ t)
      | None \<Rightarrow>
         (case nonempty_string (get m ''id'') of
            Some d \<Rightarrow> Inr (''msg:'' @ d)
          | None \<Rightarrow>
             (case nonempty_string (get m ''messageId'') of
                Some d \<Rightarrow> Inr (''msg:'' @ d)
              | None \<Rightarrow>
                 if \<not> readable m then Inl TypeError
                 else Inr (''msg:'' @ key_role m
                           @ (case get m ''timestamp'' of
                                JNum ts \<Rightarrow> if ts \<noteq> 0 then '':'' @ show_int ts else []
                              | _ \<Rightarrow> [])
                           @ '':'' @ fnv1a (key_seed strip m i)))))"
proof (cases "nullish m")
  case True
  then show ?thesis by (simp add: messageKey_def)
next
  case nn: False
  note ne = nonempty_string_Some
  show ?thesis
  proof (cases "nonempty_string (get m ''toolCallId'')")
    case (Some t)
    with nn ne [OF Some] show ?thesis
      by (simp add: messageKey_def Let_def string_or_empty)
  next
    case tc: None
    show ?thesis
    proof (cases "nonempty_string (get m ''id'')")
      case (Some d)
      with nn tc ne [OF Some] show ?thesis
        by (simp add: messageKey_def Let_def string_or_empty)
    next
      case idn: None
      show ?thesis
      proof (cases "nonempty_string (get m ''messageId'')")
        case (Some d)
        with nn tc idn ne [OF Some] show ?thesis
          by (simp add: messageKey_def Let_def string_or_empty)
      next
        case mid: None
        show ?thesis
        proof (cases "readable m")
          case True
          from messageKey_fingerprint [OF True tc idn mid, of strip i] nn tc idn mid True
          show ?thesis by simp
        next
          case False
          with nn tc idn mid show ?thesis
            by (simp add: messageKey_def Let_def string_or_empty extractText_eq)
        qed
      qed
    qed
  qed
qed


lemma fnv1a_hi: "fnv1a ''hi'' = ''sx4lga''"
  by (simp add: fnv1a_def to_radix.simps digit_char_def)

lemma fnv1a_ih: "fnv1a ''ih'' = ''ing5ac''"
  by (simp add: fnv1a_def to_radix.simps digit_char_def)

lemma show_int_1000: "show_int 1000 = ''1000''"
  by (simp add: show_int_def to_radix.simps digit_char_def)

lemma show_int_0: "show_int 0 = ''0''"
  by (simp add: show_int_def to_radix.simps digit_char_def)

text \<open>
  C3, as amended. The key of a message that is neither null nor undefined follows this
  precedence: a non-empty string \<^verbatim>\<open>toolCallId\<close> gives \<^verbatim>\<open>tool:\<close> and that identifier
  (\<^verbatim>\<open>tool_call_id\<close> is not read); else a non-empty string \<^verbatim>\<open>id\<close> gives \<^verbatim>\<open>msg:\<close> and
  the id; else a non-empty string \<^verbatim>\<open>messageId\<close> gives \<^verbatim>\<open>msg:\<close> and the messageId;
  otherwise, for a readable message whose numbers are safe integers, the key is \<^verbatim>\<open>msg:\<close>
  role \<^verbatim>\<open>:\<close> timestamp \<^verbatim>\<open>:\<close> hash when the timestamp is a number other than 0 and
  \<^verbatim>\<open>msg:\<close> role \<^verbatim>\<open>:\<close> hash when it is 0 or not a number. The hash is the base-36
  rendering of the 32-bit FNV-1a of the seed.
\<close>

theorem messageKey_precedence:
  "(\<not> nullish message \<and> nonempty_string (get message ''toolCallId'') = Some t
      \<longrightarrow> messageKey stripThinkingTags message index = Inr (''tool:'' @ t))
   \<and> (\<not> nullish message \<and> nonempty_string (get message ''toolCallId'') = None
       \<and> nonempty_string (get message ''id'') = Some d
      \<longrightarrow> messageKey stripThinkingTags message index = Inr (''msg:'' @ d))
   \<and> (\<not> nullish message \<and> nonempty_string (get message ''toolCallId'') = None
       \<and> nonempty_string (get message ''id'') = None
       \<and> nonempty_string (get message ''messageId'') = Some d
      \<longrightarrow> messageKey stripThinkingTags message index = Inr (''msg:'' @ d))
   \<and> (readable message \<and> safe_numbers message
       \<and> nonempty_string (get message ''toolCallId'') = None
       \<and> nonempty_string (get message ''id'') = None
       \<and> nonempty_string (get message ''messageId'') = None
       \<and> get message ''timestamp'' = JNum ts \<and> ts \<noteq> 0
      \<longrightarrow> messageKey stripThinkingTags message index =
            Inr (''msg:'' @ key_role message @ '':'' @ show_int ts @ '':''
                 @ to_radix 36 (fnv1a_hash (key_seed stripThinkingTags message index))))
   \<and> (readable message \<and> safe_numbers message
       \<and> nonempty_string (get message ''toolCallId'') = None
       \<and> nonempty_string (get message ''id'') = None
       \<and> nonempty_string (get message ''messageId'') = None
       \<and> (get message ''timestamp'' = JNum 0 \<or> (\<forall>n. get message ''timestamp'' \<noteq> JNum n))
      \<longrightarrow> messageKey stripThinkingTags message index =
            Inr (''msg:'' @ key_role message @ '':''
                 @ to_radix 36 (fnv1a_hash (key_seed stripThinkingTags message index))))"
proof -
  have hash: "fnv1a s = to_radix 36 (fnv1a_hash s)" for s
    using unat_fnv_foldl [of "0x811c9dc5" s] by (simp add: fnv1a_def fnv1a_hash_def)
  have c1: "messageKey stripThinkingTags message index = Inr (''tool:'' @ t)"
    if "\<not> nullish message \<and> nonempty_string (get message ''toolCallId'') = Some t"
    using that nonempty_string_Some [of "get message ''toolCallId''" t]
    unfolding messageKey_def Let_def string_or_empty by simp
  have c2: "messageKey stripThinkingTags message index = Inr (''msg:'' @ d)"
    if "\<not> nullish message \<and> nonempty_string (get message ''toolCallId'') = None
       \<and> nonempty_string (get message ''id'') = Some d"
    using that nonempty_string_Some [of "get message ''id''" d]
    unfolding messageKey_def Let_def string_or_empty by simp
  have c3: "messageKey stripThinkingTags message index = Inr (''msg:'' @ d)"
    if "\<not> nullish message \<and> nonempty_string (get message ''toolCallId'') = None
       \<and> nonempty_string (get message ''id'') = None
       \<and> nonempty_string (get message ''messageId'') = Some d"
    using that nonempty_string_Some [of "get message ''messageId''" d]
    unfolding messageKey_def Let_def string_or_empty by simp
  have fp: "messageKey stripThinkingTags message index =
           Inr (''msg:'' @ key_role message
                @ (case get message ''timestamp'' of
                     JNum n \<Rightarrow> if n \<noteq> 0 then '':'' @ show_int n else []
                   | _ \<Rightarrow> [])
                @ '':'' @ to_radix 36 (fnv1a_hash (key_seed stripThinkingTags message index)))"
    if r: "readable message"
      and n: "nonempty_string (get message ''toolCallId'') = None"
             "nonempty_string (get message ''id'') = None"
             "nonempty_string (get message ''messageId'') = None"
  proof -
    define X where "X = map_option (role_strip stripThinkingTags message) (raw_text message)"
    have e: "extractText stripThinkingTags message = Inr X"
      using r by (simp add: extractText_eq X_def)
    have seed: "(case (case X of Some t \<Rightarrow> Some t | None \<Rightarrow> as_string (get message ''content'')) of
                   Some s \<Rightarrow> s
                 | None \<Rightarrow> (case safeJson message of Some j \<Rightarrow> j
                             | None \<Rightarrow> show_int (int index)))
                = key_seed stripThinkingTags message index"
      by (cases X) (simp_all add: key_seed_def e)
    from r have nn: "\<not> nullish message" by (simp add: readable_def)
    show ?thesis
      unfolding messageKey_def Let_def string_or_empty role_or_unknown e
      using nn n
      by (cases "get message ''timestamp''") (simp_all add: seed hash)
  qed
  have c4: "messageKey stripThinkingTags message index =
            Inr (''msg:'' @ key_role message @ '':'' @ show_int ts @ '':''
                 @ to_radix 36 (fnv1a_hash (key_seed stripThinkingTags message index)))"
    if "readable message \<and> safe_numbers message
       \<and> nonempty_string (get message ''toolCallId'') = None
       \<and> nonempty_string (get message ''id'') = None
       \<and> nonempty_string (get message ''messageId'') = None
       \<and> get message ''timestamp'' = JNum ts \<and> ts \<noteq> 0"
    using that by (simp add: fp)
  have c5: "messageKey stripThinkingTags message index =
            Inr (''msg:'' @ key_role message @ '':''
                 @ to_radix 36 (fnv1a_hash (key_seed stripThinkingTags message index)))"
    if "readable message \<and> safe_numbers message
       \<and> nonempty_string (get message ''toolCallId'') = None
       \<and> nonempty_string (get message ''id'') = None
       \<and> nonempty_string (get message ''messageId'') = None
       \<and> (get message ''timestamp'' = JNum 0 \<or> (\<forall>n. get message ''timestamp'' \<noteq> JNum n))"
    using that by (cases "get message ''timestamp''") (auto simp: fp)
  from c1 c2 c3 c4 c5 show ?thesis by blast
qed

theorem messageKey_precedence_witness:
  "messageKey rev
     (JObj [(''role'', JStr ''assistant''), (''content'', JStr ''hi''),
            (''timestamp'', JNum 1000)]) 3
   = Inr ''msg:assistant:1000:ing5ac''
   \<and> messageKey rev
     (JObj [(''id'', JStr []), (''messageId'', JStr ''m7''), (''content'', JArr [JNull])]) 3
   = Inr ''msg:m7''"
  using messageKey_precedence
          [of "JObj [(''role'', JStr ''assistant''), (''content'', JStr ''hi''),
                     (''timestamp'', JNum 1000)]" "[]" rev 3 "[]" 1000]
        messageKey_precedence
          [of "JObj [(''id'', JStr []), (''messageId'', JStr ''m7''),
                     (''content'', JArr [JNull])]" "[]" rev 3 "''m7''" 1000]
        fnv1a_refines [of "''ih''"]
  by (simp add: readable_def nullish_def nonempty_string_def key_role_def as_string_def
        key_seed_def extractText_eq raw_text_def role_strip_def show_int_1000 fnv1a_ih
        safe_integer_def)

lemma fnv1a_hash_hi: "to_radix 36 (fnv1a_hash ''hi'') = ''sx4lga''"
  using unat_fnv_foldl [of "0x811c9dc5" "''hi''"] fnv1a_hi
  by (simp add: fnv1a_def fnv1a_hash_def)

text \<open>
  The claim as stated fails: a timestamp of 0 is left out of the key, a message that carries
  only \<^verbatim>\<open>tool_call_id\<close> gets a fingerprint key, and an empty \<^verbatim>\<open>id\<close> is passed over.
\<close>

theorem messageKey_precedence_counterexample:
  "messageKey id
     (JObj [(''role'', JStr ''user''), (''content'', JStr ''hi''), (''timestamp'', JNum 0)]) 0
   = Inr ''msg:user:sx4lga''
   \<and> claimed_key id
     (JObj [(''role'', JStr ''user''), (''content'', JStr ''hi''), (''timestamp'', JNum 0)]) 0
   = ''msg:user:0:sx4lga''
   \<and> messageKey id (JObj [(''tool_call_id'', JStr ''c1''), (''content'', JStr ''hi'')]) 0
   = Inr ''msg:unknown:sx4lga''
   \<and> claimed_key id (JObj [(''tool_call_id'', JStr ''c1''), (''content'', JStr ''hi'')]) 0
   = ''tool:c1''
   \<and> messageKey id (JObj [(''id'', JStr []), (''messageId'', JStr ''m7'')]) 0 = Inr ''msg:m7''
   \<and> claimed_key id (JObj [(''id'', JStr []), (''messageId'', JStr ''m7'')]) 0 = ''msg:''"
  by (simp add: messageKey_def claimed_key_def nullish_def Let_def extractText_def
        key_role_def as_string_def key_seed_def show_int_0 fnv1a_hi fnv1a_hash_hi)

section \<open>Unserialisable messages, repeated builds, the history window and distinct keys\<close>

lemma error_TypeError: "(e :: error) = TypeError"
  by (cases e) simp

lemma fnv1a_3: "fnv1a ''3'' = ''ezvv42''"
  by (simp add: fnv1a_def to_radix.simps digit_char_def)

lemma show_int_3: "show_int 3 = ''3''"
  by (simp add: show_int_def to_radix.simps digit_char_def)

text \<open>
  C4. A message that \<^verbatim>\<open>JSON.stringify\<close> rejects and that yields no tool card makes
  \<^verbatim>\<open>renderMessage\<close> throw: the fallback display calls \<^verbatim>\<open>JSON.stringify\<close> outside any
  \<^verbatim>\<open>try\<close>. The fingerprint is safe: \<^verbatim>\<open>safeJson\<close> returns null there, and with no text
  and no string content the seed is the index.
\<close>

theorem renderMessage_unserializable:
  "(JSON_stringify ''  '' message = Inl TypeError
      \<and> extractToolCards stripThinkingTags JSON_parse message = Inr []
     \<longrightarrow> renderMessage stripThinkingTags JSON_parse showReasoning message = Inl TypeError)
   \<and> (JSON_stringify [] message = Inl TypeError
      \<and> extractText stripThinkingTags message = Inr None
      \<and> as_string (get message ''content'') = None
     \<longrightarrow> safeJson message = None
         \<and> key_seed stripThinkingTags message index = show_int (int index))"
proof (intro conjI impI)
  assume h: "JSON_stringify ''  '' message = Inl TypeError
      \<and> extractToolCards stripThinkingTags JSON_parse message = Inr []"
  show "renderMessage stripThinkingTags JSON_parse showReasoning message = Inl TypeError"
  proof (cases "nullish message")
    case True
    then show ?thesis by (simp add: renderMessage_def)
  next
    case False
    with h show ?thesis
      by (auto simp: renderMessage_def Let_def error_TypeError split: sum.splits)
  qed
next
  assume h: "JSON_stringify [] message = Inl TypeError
      \<and> extractText stripThinkingTags message = Inr None
      \<and> as_string (get message ''content'') = None"
  then show "safeJson message = None" by (simp add: safeJson_def)
  with h show "key_seed stripThinkingTags message index = show_int (int index)"
    by (simp add: key_seed_def)
qed

theorem renderMessage_unserializable_witness:
  "renderMessage id Map.empty False (JObj [(''role'', JStr ''user''), (''payload'', JBigInt 1)])
     = Inl TypeError
   \<and> safeJson (JObj [(''role'', JStr ''user''), (''payload'', JBigInt 1)]) = None
   \<and> messageKey id (JObj [(''role'', JStr ''user''), (''payload'', JBigInt 1)]) 3
     = Inr ''msg:user:ezvv42''"
  using renderMessage_unserializable
          [of "JObj [(''role'', JStr ''user''), (''payload'', JBigInt 1)]" id Map.empty False 3]
  by (simp add: JSON_stringify_def extractToolCards_def normalizeContent_def Let_def
        isToolResultMessage_def toLowerCase_def nullish_def extractText_eq readable_def
        raw_text_def as_string_def messageKey_eq nonempty_string_def key_role_def
        fnv1a_3 show_int_3)

lemma group_loop_unreadable:
  "\<not> list_all item_readable items \<Longrightarrow> group_loop now items result cur = Inl TypeError"
proof (induction items arbitrary: result cur)
  case Nil
  then show ?case by simp
next
  case (Cons item items)
  then show ?case
    by (cases item) (auto simp: group_loop_message)
qed

lemma group_loop_keys:
  "group_loop now items result cur = Inr out \<Longrightarrow>
   map render_key out =
     map render_key (push_group result cur) @ group_keys items (map_option group_role cur)"
proof (induction items arbitrary: result cur)
  case Nil
  then show ?case by auto
next
  case (Cons item items)
  show ?case
  proof (cases item)
    case (MessageItem key m)
    show ?thesis
    proof (cases "cur = None \<or> group_role (the cur) \<noteq> grouping_role m")
      case True
      with Cons.prems MessageItem have run:
        "group_loop now items (push_group result cur)
           (Some (new_group (grouping_role m) key m (grouping_timestamp now m))) = Inr out"
        by (auto simp: group_loop_message split: if_splits)
      from True have "map_option group_role cur \<noteq> Some (grouping_role m)"
        by (cases cur) auto
      with Cons.IH [OF run] MessageItem show ?thesis
        by (auto simp: push_group_def [of "push_group result cur"] new_group_def)
    next
      case False
      then obtain g where g: "cur = Some g" and role: "group_role g = grouping_role m" by auto
      with False Cons.prems MessageItem have run:
        "group_loop now items result
           (Some (g\<lparr>group_messages := group_messages g @ [(m, key)]\<rparr>)) = Inr out"
        by (auto simp: group_loop_message split: if_splits)
      from Cons.IH [OF run] MessageItem g role show ?thesis
        by (simp add: push_group_def)
    qed
  next
    case (StreamItem key t startedAt)
    with Cons.prems have run:
      "group_loop now items (push_group result cur @ [Item item]) None = Inr out"
      by simp
    from Cons.IH [OF run] StreamItem show ?thesis
      by (simp add: push_group_def [of _ None])
  next
    case (ReadingIndicator key)
    with Cons.prems have run:
      "group_loop now items (push_group result cur @ [Item item]) None = Inr out"
      by simp
    from Cons.IH [OF run] ReadingIndicator show ?thesis
      by (simp add: push_group_def [of _ None])
  qed
qed

lemma groupMessages_keys:
  "map_sum id (map render_key) (groupMessages now items) =
     (if list_all item_readable items then Inr (group_keys items None) else Inl TypeError)"
proof (cases "list_all item_readable items")
  case True
  from group_loop_readable [OF True, of now "[]" None]
  obtain out where out: "group_loop now items [] None = Inr out" by blast
  from group_loop_keys [OF out] out True show ?thesis
    by (simp add: groupMessages_def push_group_def)
next
  case False
  then show ?thesis
    by (simp add: groupMessages_def group_loop_unreadable)
qed

lemma same_view_refl: "same_view a a"
  by (cases a) simp_all

lemma same_view_list_refl: "list_all2 same_view xs xs"
  by (simp add: list_all2_same same_view_refl)

lemma same_view_keys: "list_all2 same_view xs ys \<Longrightarrow> map item_key xs = map item_key ys"
proof (induction rule: list_all2_induct)
  case Nil
  show ?case by simp
next
  case (Cons x xs y ys)
  then show ?case by (cases x; cases y) simp_all
qed

lemma same_view_readable:
  "list_all2 same_view xs ys \<Longrightarrow> list_all item_readable xs = list_all item_readable ys"
proof (induction rule: list_all2_induct)
  case Nil
  show ?case by simp
next
  case (Cons x xs y ys)
  then show ?case by (cases x; cases y) simp_all
qed

lemma same_view_group_keys:
  "list_all2 same_view xs ys \<Longrightarrow> group_keys xs c = group_keys ys c"
proof (induction arbitrary: c rule: list_all2_induct)
  case Nil
  show ?case by simp
next
  case (Cons x xs y ys)
  then show ?case by (cases x; cases y) simp_all
qed

lemma message_items_Inr:
  "message_items strip ms i = Inr items \<Longrightarrow> items = keyed strip i ms"
proof (induction ms arbitrary: i items)
  case Nil
  then show ?case by (simp add: keyed_def)
next
  case (Cons m ms)
  then show ?case
    by (auto simp: keyed_def the_key_def split: sum.splits)
qed

lemma chat_items_cases:
  "chat_items strip now props =
     (case message_items strip
             (drop (length (array_items (messages props)) - 200) (array_items (messages props)))
             (length (array_items (messages props)) - 200) of
        Inl e \<Rightarrow> Inl e
      | Inr hs \<Rightarrow>
          (case message_items strip (array_items (toolMessages props))
                  (length (array_items (messages props))) of
             Inl e \<Rightarrow> Inl e
           | Inr ts \<Rightarrow>
               Inr ((if length (array_items (messages props)) > 200
                     then [history_notice now (length (array_items (messages props)) - 200)]
                     else [])
                    @ hs @ ts @ live_items now props)))"
  unfolding chat_items_def Let_def array_items_def CHAT_HISTORY_RENDER_LIMIT_def
  by (auto split: sum.splits)

lemma same_view_notice: "same_view (history_notice now n) (history_notice now' n)"
  by (simp add: history_notice_def readable_def nullish_def grouping_role_def as_string_def)

lemma same_view_live: "list_all2 same_view (live_items now props) (live_items now' props)"
  by (simp add: live_items_cases split: option.splits)

lemma build_keys:
  "map_sum id (map render_key) (buildChatItems strip now props)
   = map_sum id (map render_key) (buildChatItems strip now' props)"
proof -
  let ?h = "array_items (messages props)"
  let ?A = "message_items strip (drop (length ?h - 200) ?h) (length ?h - 200)"
  let ?B = "message_items strip (array_items (toolMessages props)) (length ?h)"
  show ?thesis
  proof (cases ?A)
    case (Inl e)
    then show ?thesis by (simp add: buildChatItems_def chat_items_cases)
  next
    case A: (Inr hs)
    show ?thesis
    proof (cases ?B)
      case (Inl e)
      with A show ?thesis by (simp add: buildChatItems_def chat_items_cases)
    next
      case B: (Inr ts)
      define L where "L = (\<lambda>n. (if length ?h > 200 then [history_notice n (length ?h - 200)]
                                 else [])
                                @ hs @ ts @ live_items n props)"
      have c: "chat_items strip n props = Inr (L n)" for n
        using A B by (simp add: chat_items_cases L_def)
      have v: "list_all2 same_view (L now) (L now')"
        unfolding L_def
        by (intro list_all2_appendI same_view_list_refl same_view_live)
           (simp add: same_view_notice)
      show ?thesis
      proof (cases "useNewChatLayout props")
        case False
        with c same_view_keys [OF v] show ?thesis
          by (simp add: buildChatItems_def comp_def)
      next
        case True
        with c same_view_readable [OF v] same_view_group_keys [OF v, of None] show ?thesis
          by (simp add: buildChatItems_def groupMessages_keys)
      qed
    qed
  qed
qed

lemma grouping_timestamp_stamped:
  "has_timestamp m \<Longrightarrow> grouping_timestamp now m = grouping_timestamp now' m"
  by (cases "get m ''timestamp''") (simp_all add: has_timestamp_def grouping_timestamp_def)

lemma group_loop_stamped:
  "list_all stamped items \<Longrightarrow> group_loop now items result cur = group_loop now' items result cur"
proof (induction items arbitrary: result cur)
  case Nil
  show ?case by simp
next
  case (Cons item items)
  then show ?case
    by (cases item) (simp_all add: group_loop_message grouping_timestamp_stamped [of _ now now'])
qed

lemma keyed_stamped: "list_all has_timestamp ms \<Longrightarrow> list_all stamped (keyed strip i ms)"
  by (induction ms arbitrary: i) (simp_all add: keyed_def)

lemma live_items_stamped: "list_all stamped (live_items now props)"
  by (simp add: live_items_cases split: option.splits)

lemma live_items_started:
  "stream props = None \<or> streamStartedAt props \<noteq> None \<Longrightarrow>
   live_items now props = live_items now' props"
  by (auto simp: live_items_cases split: option.splits)

lemma build_clock_free:
  assumes "clock_free props"
  shows "buildChatItems strip now props = buildChatItems strip now' props"
proof -
  let ?h = "array_items (messages props)"
  let ?t = "array_items (toolMessages props)"
  from assms have n: "length ?h \<le> 200"
    and l: "live_items now props = live_items now' props"
    by (simp_all add: clock_free_def live_items_started)
  from n l have c: "chat_items strip now props = chat_items strip now' props"
    by (simp add: chat_items_cases split: sum.splits)
  show ?thesis
  proof (cases "useNewChatLayout props")
    case False
    with c show ?thesis by (simp add: buildChatItems_def split: sum.splits)
  next
    case True
    with assms have s: "list_all has_timestamp ?h" "list_all has_timestamp ?t"
      by (simp_all add: clock_free_def)
    show ?thesis
    proof (cases "chat_items strip now' props")
      case (Inl e)
      with c show ?thesis by (simp add: buildChatItems_def)
    next
      case (Inr items)
      with n obtain hs ts where
        hs: "message_items strip ?h 0 = Inr hs" and
        ts: "message_items strip ?t (length ?h) = Inr ts" and
        items: "items = hs @ ts @ live_items now' props"
        by (auto simp: chat_items_cases split: sum.splits)
      from message_items_Inr [OF hs] message_items_Inr [OF ts] s items
      have "list_all stamped items"
        by (simp add: keyed_stamped live_items_stamped)
      from group_loop_stamped [OF this, of now "[]" None now'] True c Inr show ?thesis
        by (simp add: buildChatItems_def groupMessages_def)
    qed
  qed
qed

text \<open>
  C1, as amended. Two builds of the same inputs, at any two clock readings, throw alike or
  return sequences with the same keys in the same order; they return the same sequence
  whenever the build reads no clock.
\<close>

theorem buildChatItems_repeatable:
  "map_sum id (map render_key) (buildChatItems stripThinkingTags now props)
   = map_sum id (map render_key) (buildChatItems stripThinkingTags now' props)
   \<and> (clock_free props
      \<longrightarrow> buildChatItems stripThinkingTags now props
          = buildChatItems stripThinkingTags now' props)"
  using build_keys [of stripThinkingTags now props now']
        build_clock_free [of props stripThinkingTags now now']
  by blast

theorem buildChatItems_repeatable_witness:
  "clock_free
     \<lparr>sessionKey = ''main'',
      messages = JArr [JObj [(''role'', JStr ''user''), (''id'', JStr ''a''),
                             (''timestamp'', JNum 1000)]],
      toolMessages = JArr [], stream = Some ''typing'', streamStartedAt = Some 1200,
      useNewChatLayout = True\<rparr>
   \<and> buildChatItems rev 1
       \<lparr>sessionKey = ''main'',
        messages = JArr [JObj [(''role'', JStr ''user''), (''id'', JStr ''a''),
                               (''timestamp'', JNum 1000)]],
        toolMessages = JArr [], stream = Some ''typing'', streamStartedAt = Some 1200,
        useNewChatLayout = True\<rparr>
     = buildChatItems rev 2
       \<lparr>sessionKey = ''main'',
        messages = JArr [JObj [(''role'', JStr ''user''), (''id'', JStr ''a''),
                               (''timestamp'', JNum 1000)]],
        toolMessages = JArr [], stream = Some ''typing'', streamStartedAt = Some 1200,
        useNewChatLayout = True\<rparr>"
  using buildChatItems_repeatable
          [of rev 1
              "\<lparr>sessionKey = ''main'',
                messages = JArr [JObj [(''role'', JStr ''user''), (''id'', JStr ''a''),
                                       (''timestamp'', JNum 1000)]],
                toolMessages = JArr [], stream = Some ''typing'', streamStartedAt = Some 1200,
                useNewChatLayout = True\<rparr>" 2]
  by (simp add: clock_free_def array_items_def has_timestamp_def)

text \<open>
  The claim as stated fails: with a live text and no start time, the stream item's
  \<^verbatim>\<open>startedAt\<close> is the clock reading of the call.
\<close>

theorem buildChatItems_repeatable_counterexample:
  "buildChatItems id 1
     \<lparr>sessionKey = ''main'', messages = JArr [], toolMessages = JArr [],
      stream = Some ''hello'', streamStartedAt = None, useNewChatLayout = False\<rparr>
   = Inr [Item (StreamItem ''stream:main:live'' ''hello'' 1)]
   \<and> buildChatItems id 2
     \<lparr>sessionKey = ''main'', messages = JArr [], toolMessages = JArr [],
      stream = Some ''hello'', streamStartedAt = None, useNewChatLayout = False\<rparr>
   = Inr [Item (StreamItem ''stream:main:live'' ''hello'' 2)]
   \<and> buildChatItems id 1
     \<lparr>sessionKey = ''main'', messages = JArr [], toolMessages = JArr [],
      stream = Some ''hello'', streamStartedAt = None, useNewChatLayout = False\<rparr>
   \<noteq> buildChatItems id 2
     \<lparr>sessionKey = ''main'', messages = JArr [], toolMessages = JArr [],
      stream = Some ''hello'', streamStartedAt = None, useNewChatLayout = False\<rparr>"
  by (simp add: buildChatItems_def chat_items_def Let_def live_items_def trim_def is_space_def)

lemma messageKey_prefix:
  "messageKey strip m i = Inr k \<Longrightarrow> (\<exists>r. k = ''tool:'' @ r) \<or> (\<exists>r. k = ''msg:'' @ r)"
  by (auto simp: messageKey_eq split: if_splits option.splits)

lemma keyed_append:
  "keyed strip i (xs @ ys) = keyed strip i xs @ keyed strip (i + length xs) ys"
  by (induction xs arbitrary: i) (simp_all add: keyed_def)

lemma keyed_key_prefix:
  assumes "list_all readable ms" and "x \<in> set (keyed strip i ms)"
  shows "\<exists>k m. x = MessageItem k m \<and> m \<in> set ms
               \<and> ((\<exists>r. k = ''tool:'' @ r) \<or> (\<exists>r. k = ''msg:'' @ r))"
  using assms
proof (induction ms arbitrary: i)
  case Nil
  then show ?case by (simp add: keyed_def)
next
  case (Cons m ms)
  from Cons.prems(1) have r: "readable m" and rs: "list_all readable ms" by simp_all
  from messageKey_readable [OF r, of strip i] obtain k where k: "messageKey strip m i = Inr k"
    by blast
  from Cons.prems(2) have "x = MessageItem k m \<or> x \<in> set (keyed strip (Suc i) ms)"
    using k by (simp add: keyed_def the_key_def)
  then show ?case
  proof
    assume "x = MessageItem k m"
    with messageKey_prefix [OF k] show ?thesis by auto
  next
    assume "x \<in> set (keyed strip (Suc i) ms)"
    from Cons.IH [OF rs this] show ?thesis by auto
  qed
qed

lemma split_at_colon:
  "CHR '':'' \<notin> set r1 \<Longrightarrow> CHR '':'' \<notin> set r2 \<Longrightarrow>
   r1 @ CHR '':'' # k1 = r2 @ CHR '':'' # k2 \<Longrightarrow> r1 = r2 \<and> k1 = k2"
proof (induction r1 arbitrary: r2)
  case Nil
  then show ?case by (cases r2) auto
next
  case (Cons c r1)
  then show ?case by (cases r2) auto
qed

lemma group_keys_subset: "set (group_keys xs c) \<subseteq> group_key_of ` set xs"
proof (induction xs arbitrary: c)
  case Nil
  show ?case by simp
next
  case (Cons x xs)
  show ?case
  proof (cases x)
    case (MessageItem k m)
    with Cons [of c] Cons [of "Some (grouping_role m)"] show ?thesis by auto
  next
    case (StreamItem k t s)
    with Cons [of None] show ?thesis by auto
  next
    case (ReadingIndicator k)
    with Cons [of None] show ?thesis by auto
  qed
qed

lemma distinct_group_keys:
  "distinct (map group_key_of xs) \<Longrightarrow> distinct (group_keys xs c)"
proof (induction xs arbitrary: c)
  case Nil
  show ?case by simp
next
  case (Cons x xs)
  then have d: "group_key_of x \<notin> group_key_of ` set xs" and rest: "distinct (map group_key_of xs)"
    by simp_all
  from d group_keys_subset have n: "group_key_of x \<notin> set (group_keys xs c')" for c'
    by blast
  show ?case
  proof (cases x)
    case (MessageItem k m)
    with Cons.IH [OF rest] n [of "Some (grouping_role m)"] show ?thesis by simp
  next
    case (StreamItem k t s)
    with Cons.IH [OF rest] n [of None] show ?thesis by simp
  next
    case (ReadingIndicator k)
    with Cons.IH [OF rest] n [of None] show ?thesis by simp
  qed
qed

lemma grouping_role_notice: "group_key_of (history_notice now n) = ''group:system:chat:history:notice''"
  by (simp add: history_notice_def grouping_role_def as_string_def normalizeRoleForGrouping_def
        toLowerCase_def)

lemma distinct_three:
  "distinct bs \<Longrightarrow> as = [] \<or> as = [a] \<Longrightarrow> cs = [] \<or> cs = [c] \<Longrightarrow>
   a \<notin> set bs \<Longrightarrow> c \<notin> set bs \<Longrightarrow> a \<noteq> c \<Longrightarrow> distinct (as @ bs @ cs)"
  by auto

subsection \<open>Numerals and key material\<close>

lemma takeWhile_nth_distinct:
  "distinct xs \<Longrightarrow> i < length xs \<Longrightarrow> length (takeWhile (\<lambda>x. x \<noteq> xs ! i) xs) = i"
proof (induction xs arbitrary: i)
  case Nil
  then show ?case by simp
next
  case (Cons x xs)
  then show ?case by (cases i) auto
qed

lemma digit_value_char: "d < 36 \<Longrightarrow> digit_value (digit_char d) = d"
  unfolding digit_value_def digit_char_def
  by (rule takeWhile_nth_distinct) simp_all

lemma digit_char_mem:
  "d < 36 \<Longrightarrow> digit_char d \<in> set ''0123456789abcdefghijklmnopqrstuvwxyz''"
  unfolding digit_char_def by (rule nth_mem) simp

lemma read_radix_to_radix:
  "2 \<le> b \<Longrightarrow> b \<le> 36 \<Longrightarrow> read_radix b (to_radix b n) = n"
proof (induction b n rule: to_radix.induct)
  case (1 b n)
  show ?case
  proof (cases "n < b")
    case True
    with 1(3) have "n < 36" by simp
    with True show ?thesis
      by (simp add: to_radix.simps [of b n] read_radix_def digit_value_char)
  next
    case False
    with 1 have ih: "read_radix b (to_radix b (n div b)) = n div b" by simp
    from 1(2) have "0 < b" by simp
    then have "n mod b < b" by simp
    with 1(3) have "n mod b < 36" by simp
    with False 1(2) ih show ?thesis
      by (simp add: to_radix.simps [of b n] read_radix_def digit_value_char)
  qed
qed

lemma to_radix_chars:
  "2 \<le> b \<Longrightarrow> b \<le> 36 \<Longrightarrow> set (to_radix b n) \<subseteq> set ''0123456789abcdefghijklmnopqrstuvwxyz''"
proof (induction b n rule: to_radix.induct)
  case (1 b n)
  show ?case
  proof (cases "n < b")
    case True
    with 1(3) have "n < 36" by simp
    from digit_char_mem [OF this] True show ?thesis
      by (simp add: to_radix.simps [of b n])
  next
    case False
    with 1 have ih: "set (to_radix b (n div b)) \<subseteq> set ''0123456789abcdefghijklmnopqrstuvwxyz''"
      by simp
    from 1(2) have "0 < b" by simp
    then have "n mod b < b" by simp
    with 1(3) have "n mod b < 36" by simp
    from digit_char_mem [OF this] False 1(2) ih show ?thesis
      by (simp add: to_radix.simps [of b n])
  qed
qed

lemma to_radix_colon_free: "2 \<le> b \<Longrightarrow> b \<le> 36 \<Longrightarrow> colon_free (to_radix b n)"
  using to_radix_chars [of b n] by (auto simp: colon_free_def)

lemma to_radix_no_minus: "CHR ''-'' \<notin> set (to_radix 10 n)"
  using to_radix_chars [of 10 n] by auto

lemma to_radix_inj: "2 \<le> b \<Longrightarrow> b \<le> 36 \<Longrightarrow> to_radix b n = to_radix b m \<Longrightarrow> n = m"
  by (metis read_radix_to_radix)

lemma show_int_inj: "show_int i = show_int j \<Longrightarrow> i = j"
proof -
  assume e: "show_int i = show_int j"
  have inj: "to_radix 10 n = to_radix 10 m \<Longrightarrow> n = m" for n m
    by (rule to_radix_inj) simp_all
  show ?thesis
  proof (cases "i < 0"; cases "j < 0")
    assume "i < 0" "j < 0"
    with e have "nat (- i) = nat (- j)" by (auto simp: show_int_def dest: inj)
    with \<open>i < 0\<close> \<open>j < 0\<close> show ?thesis by simp
  next
    assume "i < 0" "\<not> j < 0"
    with e have "to_radix 10 (nat j) = CHR ''-'' # to_radix 10 (nat (- i))"
      by (simp add: show_int_def)
    then have "CHR ''-'' \<in> set (to_radix 10 (nat j))" by simp
    with to_radix_no_minus [of "nat j"] show ?thesis by simp
  next
    assume "\<not> i < 0" "j < 0"
    with e have "to_radix 10 (nat i) = CHR ''-'' # to_radix 10 (nat (- j))"
      by (simp add: show_int_def)
    then have "CHR ''-'' \<in> set (to_radix 10 (nat i))" by simp
    with to_radix_no_minus [of "nat i"] show ?thesis by simp
  next
    assume "\<not> i < 0" "\<not> j < 0"
    with e have "nat i = nat j" by (auto simp: show_int_def dest: inj)
    with \<open>\<not> i < 0\<close> \<open>\<not> j < 0\<close> show ?thesis by simp
  qed
qed

lemma show_int_colon_free: "colon_free (show_int i)"
  using to_radix_colon_free [of 10] by (simp add: show_int_def colon_free_def)


lemma colon_free_append [simp]: "colon_free (a @ b) = (colon_free a \<and> colon_free b)"
  by (auto simp: colon_free_def)

lemma split_colon:
  "colon_free r1 \<Longrightarrow> colon_free r2 \<Longrightarrow>
   r1 @ CHR '':'' # k1 = r2 @ CHR '':'' # k2 \<Longrightarrow> r1 = r2 \<and> k1 = k2"
  unfolding colon_free_def by (rule split_at_colon)

lemma key_text_tail:
  "key_text (Fingerprint r ts h) =
     ''msg:'' @ r @ CHR '':'' # (case ts of Some n \<Rightarrow> show_int n @ CHR '':'' # to_radix 36 h
                                | None \<Rightarrow> to_radix 36 h)"
  by (cases ts) simp_all

lemma fingerprint_tail_inj:
  assumes "(case ts of Some n \<Rightarrow> show_int n @ CHR '':'' # to_radix 36 h | None \<Rightarrow> to_radix 36 h)
         = (case ts' of Some n \<Rightarrow> show_int n @ CHR '':'' # to_radix 36 h' | None \<Rightarrow> to_radix 36 h')"
  shows "ts = ts' \<and> h = h'"
proof -
  have cf: "colon_free (to_radix 36 k)" for k
    by (rule to_radix_colon_free) simp_all
  have inj: "to_radix 36 a = to_radix 36 b \<Longrightarrow> a = b" for a b
    by (rule to_radix_inj) simp_all
  show ?thesis
  proof (cases ts; cases ts')
    assume "ts = None" "ts' = None"
    with assms show ?thesis by (auto dest: inj)
  next
    fix n assume "ts = None" "ts' = Some n"
    with assms have "to_radix 36 h = show_int n @ CHR '':'' # to_radix 36 h'" by simp
    with cf [of h] show ?thesis by (simp add: colon_free_def)
  next
    fix n assume "ts = Some n" "ts' = None"
    with assms have "to_radix 36 h' = show_int n @ CHR '':'' # to_radix 36 h" by simp
    with cf [of h'] show ?thesis by (simp add: colon_free_def)
  next
    fix n n' assume t: "ts = Some n" "ts' = Some n'"
    with assms have "show_int n @ CHR '':'' # to_radix 36 h = show_int n' @ CHR '':'' # to_radix 36 h'"
      by simp
    from split_colon [OF show_int_colon_free show_int_colon_free this] t show ?thesis
      by (auto dest: inj show_int_inj)
  qed
qed

lemma key_text_inj:
  assumes e: "key_text a = key_text b"
    and a: "plain_role a" and b: "plain_role b"
    and ab: "anonymous a \<longrightarrow> plain_ident b" and ba: "anonymous b \<longrightarrow> plain_ident a"
  shows "a = b"
proof (cases a; cases b)
  fix r ts h r' ts' h'
  assume A: "a = Fingerprint r ts h" and B: "b = Fingerprint r' ts' h'"
  with a b have cf: "colon_free r" "colon_free r'" by simp_all
  from e A B have "r @ CHR '':'' # (case ts of Some n \<Rightarrow> show_int n @ CHR '':'' # to_radix 36 h
                                | None \<Rightarrow> to_radix 36 h)
       = r' @ CHR '':'' # (case ts' of Some n \<Rightarrow> show_int n @ CHR '':'' # to_radix 36 h'
                                | None \<Rightarrow> to_radix 36 h')"
    by (simp only: key_text_tail same_append_eq)
  from split_colon [OF cf this] fingerprint_tail_inj [where ts = ts and h = h and ts' = ts' and h' = h'] A B show ?thesis
    by simp
next
  fix d r ts h
  assume A: "a = Ident d" and B: "b = Fingerprint r ts h"
  with ba have "colon_free d" by simp
  moreover from e A B have "d = r @ CHR '':'' # (case ts of Some n \<Rightarrow> show_int n @ CHR '':'' # to_radix 36 h
                                | None \<Rightarrow> to_radix 36 h)"
    by (simp only: key_text_tail key_text.simps same_append_eq)
  ultimately show ?thesis by (simp add: colon_free_def)
next
  fix d r ts h
  assume B: "b = Ident d" and A: "a = Fingerprint r ts h"
  with ab have "colon_free d" by simp
  moreover from e A B have "d = r @ CHR '':'' # (case ts of Some n \<Rightarrow> show_int n @ CHR '':'' # to_radix 36 h
                                | None \<Rightarrow> to_radix 36 h)"
    by (simp only: key_text_tail key_text.simps same_append_eq)
  ultimately show ?thesis by (simp add: colon_free_def)
qed (use e in auto)

lemma keyed_keys:
  "list_all (\<lambda>m. \<forall>j. messageKey strip m j = Inr (f m j)) ms \<Longrightarrow>
   map item_key (keyed strip i ms) = map (\<lambda>(j, m). f m j) (List.enumerate i ms)"
  by (induction ms arbitrary: i) (simp_all add: keyed_def the_key_def)

lemma plain_role_material: "colon_free (key_role m) \<Longrightarrow> plain_role (key_material strip m i)"
  by (simp add: key_material_def split: option.splits)

lemma materials_plain_role:
  "list_all (\<lambda>m. colon_free (key_role m)) ms \<Longrightarrow>
   list_all plain_role (map (\<lambda>(j, m). key_material strip m j) (List.enumerate i ms))"
  by (induction ms arbitrary: i) (simp_all add: plain_role_material)

lemma key_text_inj_on:
  assumes "list_all plain_role ks" and "separable ks"
  shows "inj_on key_text (set ks)"
proof (rule inj_onI)
  fix a b
  assume a: "a \<in> set ks" and b: "b \<in> set ks" and e: "key_text a = key_text b"
  from assms(1) a b have pr: "plain_role a" "plain_role b" by (simp_all add: list_all_iff)
  have "plain_ident b" if "anonymous a"
    using assms(2) a b that by (auto simp: separable_def list_all_iff list_ex_iff)
  moreover have "plain_ident a" if "anonymous b"
    using assms(2) a b that by (auto simp: separable_def list_all_iff list_ex_iff)
  ultimately show "a = b"
    using key_text_inj [OF e pr] by blast
qed

lemma grouping_role_colon_free:
  "colon_free (key_role m) \<Longrightarrow> CHR '':'' \<notin> set (grouping_role m)"
  by (auto simp: grouping_role_def key_role_def normalizeRoleForGrouping_def Let_def
        colon_free_def split: option.splits)

subsection \<open>The history window\<close>





subsection \<open>Distinct keys\<close>

lemma distinct_mid: "distinct (as @ bs @ cs) \<Longrightarrow> distinct bs"
  by simp

text \<open>
  C2, as amended. With keyable rendered messages and separable key material, the build
  returns, and the keys of the built sequence are pairwise distinct whenever the rendered
  messages differ pairwise in the material of their keys; in the flat layout they are
  distinct only then. Two readable messages with the same material have the same key, in
  particular two messages with the same tool-call identifier or the same \<^verbatim>\<open>id\<close>; and the
  material of a readable message with an extracted text does not depend on its index, so two
  messages without identifier that agree in role, timestamp and text share their key.
\<close>

theorem buildChatItems_distinct_keys:
  "(list_all keyable (rendered_messages props) \<and> separable (materials stripThinkingTags props)
    \<longrightarrow> (\<exists>out. buildChatItems stripThinkingTags now props = Inr out
          \<and> (distinct (materials stripThinkingTags props) \<longrightarrow> distinct (map render_key out))
          \<and> (\<not> useNewChatLayout props \<and> distinct (map render_key out)
               \<longrightarrow> distinct (materials stripThinkingTags props))))
   \<and> (readable message \<and> readable message'
       \<and> key_material stripThinkingTags message i = key_material stripThinkingTags message' j
      \<longrightarrow> messageKey stripThinkingTags message i = messageKey stripThinkingTags message' j)
   \<and> (readable message \<and> extractText stripThinkingTags message = Inr (Some t)
      \<longrightarrow> key_material stripThinkingTags message i = key_material stripThinkingTags message j)"
proof -
  have hash: "fnv1a s = to_radix 36 (fnv1a_hash s)" for s
    using unat_fnv_foldl [of "0x811c9dc5" s] by (simp add: fnv1a_def fnv1a_hash_def)
  have mk: "messageKey stripThinkingTags m j
            = Inr (key_text (key_material stripThinkingTags m j))"
    if r: "readable m" for m j
  proof -
    from r have nn: "\<not> nullish m" by (simp add: readable_def)
    note ne = nonempty_string_Some
    show ?thesis
    proof (cases "nonempty_string (get m ''toolCallId'')")
      case (Some t)
      with nn ne [OF Some] show ?thesis
        unfolding messageKey_def Let_def string_or_empty by (simp add: key_material_def)
    next
      case tc: None
      show ?thesis
      proof (cases "nonempty_string (get m ''id'')")
        case (Some d)
        with nn tc ne [OF Some] show ?thesis
          unfolding messageKey_def Let_def string_or_empty by (simp add: key_material_def)
      next
        case idn: None
        show ?thesis
        proof (cases "nonempty_string (get m ''messageId'')")
          case (Some d)
          with nn tc idn ne [OF Some] show ?thesis
            unfolding messageKey_def Let_def string_or_empty by (simp add: key_material_def)
        next
          case mid: None
          define X where "X = map_option (role_strip stripThinkingTags m) (raw_text m)"
          have e: "extractText stripThinkingTags m = Inr X"
            using r by (simp add: extractText_eq X_def)
          have seed: "(case (case X of Some t \<Rightarrow> Some t | None \<Rightarrow> as_string (get m ''content'')) of
                         Some s \<Rightarrow> s
                       | None \<Rightarrow> (case safeJson m of Some k \<Rightarrow> k
                                   | None \<Rightarrow> show_int (int j)))
                      = key_seed stripThinkingTags m j"
            by (cases X) (simp_all add: key_seed_def e)
          show ?thesis
            unfolding messageKey_def Let_def string_or_empty role_or_unknown e
            using nn tc idn mid
            by (cases "get m ''timestamp''")
               (simp_all add: seed hash key_material_def key_stamp_def)
        qed
      qed
    qed
  qed
  show ?thesis
  proof (intro conjI impI)
    let ?h = "array_items (messages props)"
    define hs where "hs = length ?h - 200"
    define R where "R = rendered_messages props"
    define K where "K = keyed stripThinkingTags hs R"
    define N where "N = (if length ?h > 200 then [history_notice now hs] else [])"
    define live where "live = live_items now props"
    define M where "M = materials stripThinkingTags props"
    assume a: "list_all keyable (rendered_messages props)
               \<and> separable (materials stripThinkingTags props)"
    then have rms: "list_all readable R" and cf: "list_all (\<lambda>m. colon_free (key_role m)) R"
      and sep: "separable M"
      by (simp_all add: R_def M_def keyable_def list_all_iff)
    have keys: "map item_key K = map key_text M"
    proof -
      from rms mk
      have "list_all (\<lambda>m. \<forall>j. messageKey stripThinkingTags m j
                                = Inr (key_text (key_material stripThinkingTags m j))) R"
        by (simp add: list_all_iff)
      from keyed_keys [OF this, of hs] show ?thesis
        by (simp add: K_def M_def materials_def hs_def R_def case_prod_beta comp_def)
    qed
    have pr: "list_all plain_role M"
      using materials_plain_role [OF cf, of stripThinkingTags hs]
      by (simp add: M_def materials_def hs_def R_def)
    have inj: "inj_on key_text (set M)"
      by (rule key_text_inj_on [OF pr sep])
    have KM: "distinct (map item_key K) \<longleftrightarrow> distinct M"
      unfolding keys using inj by (auto simp: distinct_map)
    have c: "chat_items stripThinkingTags now props = Inr (N @ K @ live)"
    proof -
      from rms have rh: "list_all readable (drop hs ?h)"
        and rt: "list_all readable (array_items (toolMessages props))"
        by (simp_all add: R_def rendered_messages_def hs_def)
      have a: "(case messages props of JArr xs \<Rightarrow> xs | _ \<Rightarrow> []) = ?h"
              "(case toolMessages props of JArr xs \<Rightarrow> xs | _ \<Rightarrow> [])
               = array_items (toolMessages props)"
        by (simp_all add: array_items_def)
      have "hs + length (drop hs ?h) = length ?h" by (simp add: hs_def)
      then have k: "K = keyed stripThinkingTags hs (drop hs ?h)
                        @ keyed stripThinkingTags (length ?h) (array_items (toolMessages props))"
        by (simp add: K_def R_def rendered_messages_def hs_def [symmetric] keyed_append)
      show ?thesis
        unfolding chat_items_def a Let_def CHAT_HISTORY_RENDER_LIMIT_def
        using message_items_readable [OF rh, of stripThinkingTags hs]
              message_items_readable [OF rt, of stripThinkingTags "length ?h"]
        by (simp add: N_def k live_def hs_def)
    qed
    have rL: "list_all item_readable (N @ K @ live)"
      using keyed_readable [OF rms, of stripThinkingTags hs]
      by (simp add: N_def K_def live_def readable_notice live_items_readable)
    have pre: "\<exists>k m. x = MessageItem k m \<and> m \<in> set R
                 \<and> ((\<exists>r. k = ''tool:'' @ r) \<or> (\<exists>r. k = ''msg:'' @ r))"
      if "x \<in> set K" for x
      using keyed_key_prefix [OF rms, of x stripThinkingTags hs] that
      by (auto simp: K_def)
    have lv: "live = [] \<or> (\<exists>x. live = [x] \<and> \<not> is_message x \<and> item_key x = stream_key props)"
      by (auto simp: live_def live_items_cases split: option.splits)
    have nt: "N = [] \<or> N = [history_notice now hs]"
      by (simp add: N_def)
    have "\<exists>out. buildChatItems stripThinkingTags now props = Inr out
            \<and> (distinct M \<longrightarrow> distinct (map render_key out))
            \<and> (\<not> useNewChatLayout props \<and> distinct (map render_key out) \<longrightarrow> distinct M)"
    proof (cases "useNewChatLayout props")
      case False
      have kN: "''chat:history:notice'' \<notin> set (map item_key K)"
        using pre by fastforce
      have kS: "stream_key props \<notin> set (map item_key K)"
        using pre by (fastforce simp: stream_key_def)
      have n: "map item_key N = [] \<or> map item_key N = [''chat:history:notice'']"
        using nt by (auto simp: history_notice_def)
      have l: "map item_key live = [] \<or> map item_key live = [stream_key props]"
        using lv by auto
      have fwd: "distinct (map item_key N @ map item_key K @ map item_key live)"
        if dK: "distinct (map item_key K)"
        using dK n l kN kS
        by (rule distinct_three) (simp add: stream_key_def)
      have rk: "render_key \<circ> Item = item_key"
        by (rule ext) simp
      have out: "buildChatItems stripThinkingTags now props = Inr (map Item (N @ K @ live))"
        using False c by (simp add: buildChatItems_def)
      have ks: "map render_key (map Item (N @ K @ live))
                = map item_key N @ map item_key K @ map item_key live"
        by (simp add: rk)
      have "distinct M \<longrightarrow> distinct (map render_key (map Item (N @ K @ live)))"
        unfolding ks using fwd KM by blast
      moreover have "distinct (map render_key (map Item (N @ K @ live))) \<longrightarrow> distinct M"
        unfolding ks using KM distinct_mid by blast
      ultimately show ?thesis
        using out by blast
    next
      case True
      have colon: "CHR '':'' \<notin> set (grouping_role m)" if "m \<in> set R" for m
      proof -
        from cf that have "colon_free (key_role m)" by (simp add: list_all_iff)
        then show ?thesis by (rule grouping_role_colon_free)
      qed
      have gK: "\<exists>k m. x = MessageItem k m \<and> CHR '':'' \<notin> set (grouping_role m)
                  \<and> ((\<exists>r. k = ''tool:'' @ r) \<or> (\<exists>r. k = ''msg:'' @ r))"
        if "x \<in> set K" for x
        using pre [OF that] colon by blast
      have injk: "item_key x = item_key y"
        if "x \<in> set K" "y \<in> set K" "group_key_of x = group_key_of y" for x y
      proof -
        from gK [OF that(1)] obtain k m where x: "x = MessageItem k m"
          "CHR '':'' \<notin> set (grouping_role m)" by blast
        from gK [OF that(2)] obtain k' m' where y: "y = MessageItem k' m'"
          "CHR '':'' \<notin> set (grouping_role m')" by blast
        from that(3) x y have "grouping_role m @ CHR '':'' # k = grouping_role m' @ CHR '':'' # k'"
          by simp
        from split_at_colon [OF x(2) y(2) this] x y show ?thesis by simp
      qed
      have gN: "''group:system:chat:history:notice'' \<notin> set (map group_key_of K)"
      proof
        assume "''group:system:chat:history:notice'' \<in> set (map group_key_of K)"
        then obtain x where xK: "x \<in> set K"
          and e: "group_key_of x = ''group:system:chat:history:notice''"
          by auto
        from gK [OF xK] obtain k m where x: "x = MessageItem k m"
          "CHR '':'' \<notin> set (grouping_role m)"
          "(\<exists>r. k = ''tool:'' @ r) \<or> (\<exists>r. k = ''msg:'' @ r)" by blast
        from e x have "grouping_role m @ CHR '':'' # k = ''system'' @ CHR '':'' # ''chat:history:notice''"
          by simp
        from split_at_colon [OF x(2) _ this] have "k = ''chat:history:notice''" by simp
        with x(3) show False by auto
      qed
      have gS: "stream_key props \<notin> set (map group_key_of K)"
      proof
        assume "stream_key props \<in> set (map group_key_of K)"
        then obtain x where xK: "x \<in> set K" and e: "group_key_of x = stream_key props"
          by auto
        from gK [OF xK] e show False by (auto simp: stream_key_def)
      qed
      have l: "map group_key_of live = [] \<or> map group_key_of live = [stream_key props]"
      proof -
        from lv show ?thesis
        proof
          assume "live = []"
          then show ?thesis by simp
        next
          assume "\<exists>x. live = [x] \<and> \<not> is_message x \<and> item_key x = stream_key props"
          then obtain x where "live = [x]" "\<not> is_message x" "item_key x = stream_key props"
            by blast
          then show ?thesis by (cases x) simp_all
        qed
      qed
      have n: "map group_key_of N = []
               \<or> map group_key_of N = [''group:system:chat:history:notice'']"
        using nt by (auto simp: grouping_role_notice)
      from groupMessages_keys [of now "N @ K @ live"] rL
      have "map_sum id (map render_key) (groupMessages now (N @ K @ live))
              = Inr (group_keys (N @ K @ live) None)"
        by simp
      then obtain out where out: "groupMessages now (N @ K @ live) = Inr out"
        "map render_key out = group_keys (N @ K @ live) None"
        by (cases "groupMessages now (N @ K @ live)") auto
      have "distinct (map render_key out)" if dM: "distinct M"
      proof -
        from dM KM have dK: "distinct (map item_key K)" by simp
        then have dk: "distinct K" and ik: "inj_on item_key (set K)"
          by (simp_all add: distinct_map)
        have "inj_on group_key_of (set K)"
        proof (rule inj_onI)
          fix x y
          assume "x \<in> set K" "y \<in> set K" "group_key_of x = group_key_of y"
          then have "item_key x = item_key y" by (rule injk)
          with ik \<open>x \<in> set K\<close> \<open>y \<in> set K\<close> show "x = y" by (simp add: inj_on_def)
        qed
        with dk have dG: "distinct (map group_key_of K)" by (simp add: distinct_map)
        have "distinct (map group_key_of N @ map group_key_of K @ map group_key_of live)"
          using dG n l gN gS
          by (rule distinct_three) (simp add: stream_key_def)
        then have "distinct (map group_key_of (N @ K @ live))" by simp
        then have "distinct (group_keys (N @ K @ live) None)"
          by (rule distinct_group_keys)
        with out show ?thesis by simp
      qed
      with out True c show ?thesis
        by (simp add: buildChatItems_def)
    qed
    then show "\<exists>out. buildChatItems stripThinkingTags now props = Inr out
            \<and> (distinct (materials stripThinkingTags props) \<longrightarrow> distinct (map render_key out))
            \<and> (\<not> useNewChatLayout props \<and> distinct (map render_key out)
                 \<longrightarrow> distinct (materials stripThinkingTags props))"
      unfolding M_def .
  next
    assume "readable message \<and> readable message'
         \<and> key_material stripThinkingTags message i = key_material stripThinkingTags message' j"
    then show "messageKey stripThinkingTags message i = messageKey stripThinkingTags message' j"
      by (simp add: mk)
  next
    assume "readable message \<and> extractText stripThinkingTags message = Inr (Some t)"
    then have "key_seed stripThinkingTags message i = key_seed stripThinkingTags message j"
      by (simp add: key_seed_def)
    then show "key_material stripThinkingTags message i = key_material stripThinkingTags message j"
      unfolding key_material_def by (rule arg_cong)
  qed
qed

theorem buildChatItems_distinct_keys_witness:
  "\<exists>out. buildChatItems rev 5
           \<lparr>sessionKey = ''main'',
            messages = JArr [JObj [(''role'', JStr ''user''), (''id'', JStr ''a'')],
                             JObj [(''role'', JStr ''assistant''), (''content'', JStr ''hi''),
                                   (''timestamp'', JNum 1000)],
                             JObj [(''role'', JStr ''assistant''), (''content'', JStr ''hi''),
                                   (''timestamp'', JNum 2000)]],
            toolMessages = JArr [JObj [(''role'', JStr ''tool''), (''toolCallId'', JStr ''c'')]],
            stream = Some ''x'', streamStartedAt = None, useNewChatLayout = True\<rparr> = Inr out
         \<and> distinct (map render_key out)"
  using buildChatItems_distinct_keys
          [of "\<lparr>sessionKey = ''main'',
            messages = JArr [JObj [(''role'', JStr ''user''), (''id'', JStr ''a'')],
                             JObj [(''role'', JStr ''assistant''), (''content'', JStr ''hi''),
                                   (''timestamp'', JNum 1000)],
                             JObj [(''role'', JStr ''assistant''), (''content'', JStr ''hi''),
                                   (''timestamp'', JNum 2000)]],
            toolMessages = JArr [JObj [(''role'', JStr ''tool''), (''toolCallId'', JStr ''c'')]],
            stream = Some ''x'', streamStartedAt = None, useNewChatLayout = True\<rparr>" rev 5]
  by (simp add: array_items_def rendered_messages_def materials_def keyable_def separable_def
        readable_def nullish_def safe_integer_def colon_free_def key_role_def as_string_def
        List.enumerate_simps key_material_def nonempty_string_def key_stamp_def)

lemma fnv1a_costarring: "fnv1a ''costarring'' = ''q5yxel''"
  by (simp add: fnv1a_def to_radix.simps digit_char_def)

lemma fnv1a_liquid: "fnv1a ''liquid'' = ''q5yxel''"
  by (simp add: fnv1a_def to_radix.simps digit_char_def)

lemma show_int_1: "show_int 1 = ''1''"
  by (simp add: show_int_def to_radix.simps digit_char_def)

text \<open>
  The claim as stated fails. Two history entries with the same role, timestamp and content
  and no identifier get the same key; so do two entries whose different contents have the
  same FNV-1a hash, a history entry and a tool message with the same tool-call identifier,
  two entries of which one has a colon in its role, and an entry whose \<^verbatim>\<open>id\<close> reads as
  the role and hash of another.
\<close>

theorem buildChatItems_distinct_keys_counterexample:
  "map_sum id (map render_key)
     (buildChatItems id 0
        \<lparr>sessionKey = ''main'',
         messages = JArr [JObj [(''role'', JStr ''user''), (''content'', JStr ''hi''),
                                (''timestamp'', JNum 1000)],
                          JObj [(''role'', JStr ''user''), (''content'', JStr ''hi''),
                                (''timestamp'', JNum 1000)]],
         toolMessages = JArr [], stream = None, streamStartedAt = None,
         useNewChatLayout = False\<rparr>)
   = Inr [''msg:user:1000:sx4lga'', ''msg:user:1000:sx4lga'']
   \<and> map_sum id (map render_key)
     (buildChatItems id 0
        \<lparr>sessionKey = ''main'',
         messages = JArr [JObj [(''role'', JStr ''user''), (''content'', JStr ''costarring''),
                                (''timestamp'', JNum 1000)],
                          JObj [(''role'', JStr ''user''), (''content'', JStr ''liquid''),
                                (''timestamp'', JNum 1000)]],
         toolMessages = JArr [], stream = None, streamStartedAt = None,
         useNewChatLayout = False\<rparr>)
   = Inr [''msg:user:1000:q5yxel'', ''msg:user:1000:q5yxel'']
   \<and> map_sum id (map render_key)
     (buildChatItems id 0
        \<lparr>sessionKey = ''main'',
         messages = JArr [JObj [(''role'', JStr ''assistant''), (''toolCallId'', JStr ''c1''),
                                (''content'', JStr ''call'')]],
         toolMessages = JArr [JObj [(''role'', JStr ''toolResult''),
                                    (''toolCallId'', JStr ''c1''), (''content'', JStr ''done'')]],
         stream = None, streamStartedAt = None, useNewChatLayout = False\<rparr>)
   = Inr [''tool:c1'', ''tool:c1'']
   \<and> map_sum id (map render_key)
     (buildChatItems id 0
        \<lparr>sessionKey = ''main'',
         messages = JArr [JObj [(''role'', JStr ''a:1''), (''content'', JStr ''hi'')],
                          JObj [(''role'', JStr ''a''), (''content'', JStr ''hi''),
                                (''timestamp'', JNum 1)]],
         toolMessages = JArr [], stream = None, streamStartedAt = None,
         useNewChatLayout = False\<rparr>)
   = Inr [''msg:a:1:sx4lga'', ''msg:a:1:sx4lga'']
   \<and> map_sum id (map render_key)
     (buildChatItems id 0
        \<lparr>sessionKey = ''main'',
         messages = JArr [JObj [(''role'', JStr ''user''), (''id'', JStr ''user:sx4lga'')],
                          JObj [(''role'', JStr ''user''), (''content'', JStr ''hi'')]],
         toolMessages = JArr [], stream = None, streamStartedAt = None,
         useNewChatLayout = False\<rparr>)
   = Inr [''msg:user:sx4lga'', ''msg:user:sx4lga'']"
  by (simp add: buildChatItems_def chat_items_def Let_def live_items_def
        CHAT_HISTORY_RENDER_LIMIT_def messageKey_def nullish_def extractText_def as_string_def
        show_int_1000 show_int_1 fnv1a_hi fnv1a_costarring fnv1a_liquid)

end
